theory Spec2Isabelle
  imports Main
begin

section \<open>Strings of the runtime\<close>

text \<open>
  Strings are byte strings (\<open>string\<close>); the text the worker handles is taken to be ASCII.
  \<open>String.prototype.trim\<close> removes white space and line terminators at both ends; on ASCII
  these are TAB, LF, VT, FF, CR and SPACE. \<open>String.prototype.toLowerCase\<close> maps the letters
  A..Z to a..z and leaves every other ASCII character alone.
  \<open>String.prototype.includes\<close> (here \<open>str_includes\<close>) tests for a contiguous occurrence.
\<close>

definition isWhiteSpace :: "char \<Rightarrow> bool" where
  "isWhiteSpace c = (c \<in> set [CHR 0x09, CHR 0x0A, CHR 0x0B, CHR 0x0C, CHR 0x0D, CHR '' ''])"

definition trim :: "string \<Rightarrow> string" where
  "trim s = rev (dropWhile isWhiteSpace (rev (dropWhile isWhiteSpace s)))"

definition toLowerChar :: "char \<Rightarrow> char" where
  "toLowerChar c =
     (case map_of (zip ''ABCDEFGHIJKLMNOPQRSTUVWXYZ'' ''abcdefghijklmnopqrstuvwxyz'') c of
        None \<Rightarrow> c
      | Some d \<Rightarrow> d)"

definition toLowerCase :: "string \<Rightarrow> string" where
  "toLowerCase s = map toLowerChar s"

definition startsWith :: "string \<Rightarrow> string \<Rightarrow> bool" where
  "startsWith s k = (take (length k) s = k)"

fun str_includes :: "string \<Rightarrow> string \<Rightarrow> bool" where
  "str_includes [] k = (k = [])"
| "str_includes (c # cs) k = (startsWith (c # cs) k \<or> str_includes cs k)"

text \<open>JavaScript truthiness of an optional string: absent, null and the empty string are falsy.\<close>

fun truthy :: "string option \<Rightarrow> bool" where
  "truthy None = False"
| "truthy (Some s) = (s \<noteq> [])"

text \<open>The string a text field holds, or \<open>d\<close> when the field is absent.\<close>

fun the_default :: "string \<Rightarrow> string option \<Rightarrow> string" where
  "the_default d None = d"
| "the_default d (Some s) = s"

section \<open>Angle tagger\<close>

text \<open>
  \<open>CAMERA_KEYWORDS\<close> (worker.ts, lines 44-56). \<open>Object.entries\<close> lists string keys in
  insertion order, so the table is the association list in declared order.
\<close>

definition CAMERA_KEYWORDS :: "(string \<times> string) list" where
  "CAMERA_KEYWORDS =
     [(''north'', ''north''),
      (''patio'', ''patio''),
      (''south'', ''south''),
      (''east'', ''east''),
      (''west'', ''west''),
      (''stairs'', ''stairs''),
      (''entry'', ''entry''),
      (''foyer'', ''entry''),
      (''kitchen'', ''kitchen''),
      (''living'', ''living''),
      (''exterior'', ''exterior'')]"

text \<open>The \<open>for ... of Object.entries(CAMERA_KEYWORDS)\<close> loop of \<open>inferCameraAngle\<close>.\<close>

fun scanKeywords :: "string \<Rightarrow> (string \<times> string) list \<Rightarrow> string option" where
  "scanKeywords lower [] = None"
| "scanKeywords lower ((keyword, angle) # rest) =
     (if str_includes lower keyword then Some angle else scanKeywords lower rest)"

text \<open>\<open>inferCameraAngle\<close> (worker.ts, lines 523-534); \<open>None\<close> is \<open>undefined\<close>.\<close>

definition inferCameraAngle :: "string \<Rightarrow> string option \<Rightarrow> string option" where
  "inferCameraAngle prompt explicit =
     (case explicit of
        Some e \<Rightarrow>
          (if e \<noteq> [] \<and> trim e \<noteq> [] then Some (trim e)
           else scanKeywords (toLowerCase prompt) CAMERA_KEYWORDS)
      | None \<Rightarrow> scanKeywords (toLowerCase prompt) CAMERA_KEYWORDS)"

section \<open>JSON values and stored text\<close>

text \<open>
  A value of the runtime that came out of \<open>JSON.parse\<close> or goes into \<open>JSON.stringify\<close>.
  An object is the list of its own properties in creation order (keys distinct);
  \<open>undefined\<close> is the absence of a value, \<open>None\<close> at type \<open>json option\<close>.
  For a number only its being zero or not matters to the worker.
\<close>

datatype json =
    JNull
  | JBool bool
  | JNum int
  | JStr string
  | JArr "json list"
  | JObj "(string \<times> json) list"

text \<open>
  Reading a property the way the worker does (\<open>(part as any).inlineData\<close>): of an object its
  value, of any other non-null value \<open>undefined\<close> (none of the names the worker reads is a
  property of a string, number, boolean or array). On \<open>null\<close> the read throws a TypeError,
  which every caller below tests for first.
\<close>

fun getProp :: "json \<Rightarrow> string \<Rightarrow> json option" where
  "getProp (JObj kvs) k = map_of kvs k"
| "getProp _ k = None"

fun nullish :: "json option \<Rightarrow> bool" where
  "nullish None = True"
| "nullish (Some JNull) = True"
| "nullish (Some _) = False"

text \<open>The operator \<open>??\<close>.\<close>

definition coalesce :: "json option \<Rightarrow> json option \<Rightarrow> json option" where
  "coalesce a b = (if nullish a then b else a)"

text \<open>Truthiness of a value, as \<open>if (inline)\<close> tests it.\<close>

fun js_truthy :: "json option \<Rightarrow> bool" where
  "js_truthy None = False"
| "js_truthy (Some JNull) = False"
| "js_truthy (Some (JBool b)) = b"
| "js_truthy (Some (JNum n)) = (n \<noteq> 0)"
| "js_truthy (Some (JStr s)) = (s \<noteq> [])"
| "js_truthy (Some (JArr xs)) = True"
| "js_truthy (Some (JObj kvs)) = True"

text \<open>
  A TEXT column that the worker reads with \<open>JSON.parse\<close> is represented by what the parser
  makes of it: the empty string (which the worker tests for before parsing), text that
  \<open>JSON.parse\<close> rejects with a SyntaxError, or the value parsed. \<open>JSON.stringify v\<close> is then
  \<open>Text_JSON v\<close>.
\<close>

datatype stored_text =
    Text_Empty
  | Text_Malformed
  | Text_JSON json

section \<open>Conversation turns\<close>

text \<open>
  \<open>GeminiPart\<close> and \<open>GeminiMessage\<close> (worker.ts, lines 4-13). The declared types are not
  checked at run time, so \<open>role\<close>, \<open>mimeType\<close>, \<open>data\<close> and \<open>thought\<close> hold whatever value the
  parsed history or the model's reply carried.
\<close>

record InlineData =
  mimeType :: json
  data :: "json option"

record GeminiPart =
  ptext :: "string option"
  inlineData :: "InlineData option"
  thought :: "json option"

record GeminiMessage =
  role :: "json option"
  parts :: "GeminiPart list"

text \<open>
  The body of the \<open>parts.map\<close> callback of \<open>normalizeParts\<close> (worker.ts, lines 633-651);
  \<open>None\<close> is the TypeError of reading a property of \<open>null\<close>.
\<close>

definition normalizePart :: "json \<Rightarrow> GeminiPart option" where
  "normalizePart part =
     (if part = JNull then None
      else
        let inline = coalesce (getProp part ''inlineData'') (getProp part ''inline_data'');
            text = getProp part ''text'';
            thought = getProp part ''thought''
        in Some \<lparr>
             ptext = (case text of Some (JStr s) \<Rightarrow> Some s | _ \<Rightarrow> None),
             inlineData =
               (case inline of
                  None \<Rightarrow> None
                | Some i \<Rightarrow>
                    if js_truthy (Some i)
                    then Some \<lparr>
                      mimeType =
                        (case coalesce (getProp i ''mimeType'') (getProp i ''mime_type'') of
                           None \<Rightarrow> JStr ''image/png''
                         | Some m \<Rightarrow> if m = JNull then JStr ''image/png'' else m),
                      data = getProp i ''data'' \<rparr>
                    else None),
             thought = thought \<rparr>)"

text \<open>\<open>normalizeParts\<close>: the map throws as soon as one element does.\<close>

definition normalizeParts :: "json list \<Rightarrow> GeminiPart list option" where
  "normalizeParts ps = those (map normalizePart ps)"

text \<open>
  The body of the \<open>parsed.map\<close> callback of \<open>parseHistory\<close> (worker.ts, lines 622-625):
  \<open>message.role\<close> throws on \<open>null\<close>, and \<open>normalizeParts (message.parts)\<close> throws unless
  \<open>message.parts\<close> is an array.
\<close>

definition parseMessage :: "json \<Rightarrow> GeminiMessage option" where
  "parseMessage message =
     (if message = JNull then None
      else
        (case getProp message ''parts'' of
           Some (JArr ps) \<Rightarrow>
             (case normalizeParts ps of
                None \<Rightarrow> None
              | Some nps \<Rightarrow> Some \<lparr> role = getProp message ''role'', parts = nps \<rparr>)
         | _ \<Rightarrow> None))"

definition parse_warning :: string where
  "parse_warning = ''Failed to parse session history''"

text \<open>
  \<open>parseHistory\<close> (worker.ts, lines 618-630). The result is the turn sequence together with
  the lines written by \<open>console.warn\<close>. Every throw of the \<open>try\<close> block (the SyntaxError of
  \<open>JSON.parse\<close>, the TypeError of \<open>parsed.map\<close> on a value that is no array, a throw of the
  callback) ends in the \<open>catch\<close> block.
\<close>

definition parseHistory :: "stored_text \<Rightarrow> GeminiMessage list \<times> string list" where
  "parseHistory history =
     (case history of
        Text_Empty \<Rightarrow> ([], [])
      | Text_Malformed \<Rightarrow> ([], [parse_warning])
      | Text_JSON parsed \<Rightarrow>
          (case parsed of
             JArr ms \<Rightarrow>
               (case those (map parseMessage ms) of
                  None \<Rightarrow> ([], [parse_warning])
                | Some conversation \<Rightarrow> (conversation, []))
           | _ \<Rightarrow> ([], [parse_warning])))"

text \<open>What \<open>JSON.stringify\<close> writes for a turn sequence: properties that are \<open>undefined\<close> are left out.\<close>

definition encodeInline :: "InlineData \<Rightarrow> json" where
  "encodeInline i =
     JObj ((''mimeType'', mimeType i) # (case data i of None \<Rightarrow> [] | Some d \<Rightarrow> [(''data'', d)]))"

definition encodePart :: "GeminiPart \<Rightarrow> json" where
  "encodePart p =
     JObj ((case ptext p of None \<Rightarrow> [] | Some s \<Rightarrow> [(''text'', JStr s)])
         @ (case inlineData p of None \<Rightarrow> [] | Some i \<Rightarrow> [(''inlineData'', encodeInline i)])
         @ (case thought p of None \<Rightarrow> [] | Some t \<Rightarrow> [(''thought'', t)]))"

definition encodeMessage :: "GeminiMessage \<Rightarrow> json" where
  "encodeMessage m =
     JObj ((case role m of None \<Rightarrow> [] | Some r \<Rightarrow> [(''role'', r)])
         @ [(''parts'', JArr (map encodePart (parts m)))])"

definition stringifyHistory :: "GeminiMessage list \<Rightarrow> stored_text" where
  "stringifyHistory history = Text_JSON (JArr (map encodeMessage history))"

text \<open>\<open>trimHistory\<close> (worker.ts, lines 729-732); the default of \<open>maxMessages\<close> is 20.\<close>

definition trimHistory :: "'a list \<Rightarrow> nat \<Rightarrow> 'a list" where
  "trimHistory history maxMessages =
     (if length history \<le> maxMessages then history
      else drop (length history - maxMessages) history)"

definition maxMessages_default :: nat where
  "maxMessages_default = 20"

text \<open>\<open>Array.prototype.join\<close>.\<close>

fun join :: "string \<Rightarrow> string list \<Rightarrow> string" where
  "join sep [] = []"
| "join sep [x] = x"
| "join sep (x # y # ys) = x @ sep @ join sep (y # ys)"

text \<open>\<open>summarizeParts\<close> (worker.ts, lines 536-541).\<close>

definition summarizeParts :: "GeminiPart list \<Rightarrow> string" where
  "summarizeParts ps =
     join '' ''
       (map (\<lambda>part. case ptext part of None \<Rightarrow> [] | Some t \<Rightarrow> trim t)
         (filter (\<lambda>part. case ptext part of None \<Rightarrow> False | Some t \<Rightarrow> length (trim t) > 0) ps))"

text \<open>\<open>buildFollowupSuggestion\<close> (worker.ts, lines 543-550).\<close>

definition buildFollowupSuggestion :: "string option \<Rightarrow> bool \<Rightarrow> string" where
  "buildFollowupSuggestion angle hasDiffText =
     (case angle of
        Some a \<Rightarrow>
          (if a \<noteq> [] then ''Would you like to explore another perspective beyond the '' @ a @ '' angle?''
           else if hasDiffText then ''Should we generate a comparison view or adjust lighting next?''
           else ''Would you like to request another refinement?'')
      | None \<Rightarrow>
          (if hasDiffText then ''Should we generate a comparison view or adjust lighting next?''
           else ''Would you like to request another refinement?''))"

section \<open>The database, the image store and the outside world\<close>

text \<open>
  The two tables of the D1 database (migrations: \<open>prompt_sessions\<close>, \<open>image_versions\<close>),
  each the list of its rows in insertion order. \<open>created_at\<close> is \<open>CURRENT_TIMESTAMP\<close>, a time
  in whole seconds. The \<open>metadata\<close> column, which the worker only ever writes with
  \<open>JSON.stringify\<close>, is the JSON value it holds.
\<close>

record SessionRecord =
  s_id :: string
  s_base_prompt :: string
  s_system_prompt :: string
  s_base_prompt_hash :: string
  s_history :: stored_text

record VersionRow =
  v_id :: string
  v_parent_id :: "string option"
  v_base_prompt :: "string option"
  v_edit_prompt :: "string option"
  v_model :: string
  v_created_at :: nat
  v_image_url :: string
  v_metadata :: json
  v_chat_id :: "string option"
  v_aspect_ratio :: "string option"
  v_diff_summary :: "string option"

text \<open>
  The state a request runs in and leaves behind: the two tables, the identifiers of the
  images Cloudflare Images has stored, and the lines written to the console.
\<close>

record State =
  prompt_sessions :: "SessionRecord list"
  image_versions :: "VersionRow list"
  cloudflare_images :: "string list"
  console :: "string list"

text \<open>A reply of the Cloudflare Images API to the upload POST.\<close>

datatype images_reply =
    Images_unreachable string
  | Images_rejected
  | Images_stored string

text \<open>
  What \<open>fetch\<close> gives for the GET of an image: \<open>response.ok\<close>, the \<open>content-type\<close> header and
  the body.
\<close>

record HttpResponse =
  resp_ok :: bool
  resp_content_type :: "string option"
  resp_body :: string

text \<open>
  The bindings of \<open>Env\<close> and everything a request reads from outside the worker. A call that
  can throw gives \<open>Inl\<close> of the error's message.
  \<^item> \<open>sha256_hex\<close>: \<open>crypto.subtle.digest ("SHA-256", _)\<close> written in hexadecimal;
  \<^item> \<open>randomUUID n\<close>: what the \<open>n\<close>-th call of \<open>crypto.randomUUID\<close> in this request returns;
  \<^item> \<open>now_iso\<close>: \<open>new Date().toISOString()\<close>; \<open>current_timestamp\<close>: the database's clock;
  \<^item> \<open>http_get\<close>, \<open>btoa\<close>, \<open>atob\<close>: the runtime's \<open>fetch\<close> and base64 functions;
  \<^item> \<open>generateContent\<close>: the Gemini SDK call, by model name, turns, system instruction and
    aspect ratio; its result is \<open>response.candidates?.[0]?.content?.parts\<close>;
  \<^item> \<open>images_post\<close>: the POST to the Cloudflare Images API, by bytes, mime type and metadata.
\<close>

record World =
  GEMINI_MODEL :: "string option"
  SYSTEM_PROMPT :: "string option"
  CF_IMAGES_DELIVERY_URL :: string
  CF_IMAGES_TOKEN :: string
  sha256_hex :: "string \<Rightarrow> string"
  randomUUID :: "nat \<Rightarrow> string"
  now_iso :: string
  current_timestamp :: nat
  http_get :: "string \<Rightarrow> string + HttpResponse"
  btoa :: "string \<Rightarrow> string"
  atob :: "string \<Rightarrow> string + string"
  generateContent ::
    "string \<Rightarrow> GeminiMessage list \<Rightarrow> GeminiMessage \<Rightarrow> string option \<Rightarrow> string + json option"
  images_post :: "string \<Rightarrow> json \<Rightarrow> json \<Rightarrow> images_reply"

definition DEFAULT_MODEL :: string where
  "DEFAULT_MODEL = ''gemini-2.5-flash-image-preview''"

definition DEFAULT_SYSTEM_PROMPT :: string where
  "DEFAULT_SYSTEM_PROMPT = ''You are an AI Orchestrator Worker that manages Gemini image generation and editing for architectural floor plans and interior/exterior photos. You handle upload, transformation, and conversational edits using Gemini's multimodal image API. All images are stored and served from Cloudflare Images, and you maintain a structured version history for every session.''"

definition SUPPORTED_ASPECT_RATIOS :: "string list" where
  "SUPPORTED_ASPECT_RATIOS = [''1:1'', ''3:2'', ''4:3'', ''4:5'', ''16:9'', ''9:16'', ''2:3'']"

text \<open>An HTTP response of the worker: the status and the JSON body.\<close>

record Response =
  status :: nat
  json_body :: json

definition jsonResponse :: "json \<Rightarrow> nat \<Rightarrow> Response" where
  "jsonResponse d st = \<lparr> status = st, json_body = d \<rparr>"

definition errorBody :: "string \<Rightarrow> json" where
  "errorBody msg = JObj [(''error'', JStr msg)]"

text \<open>A handler either returns a response or throws an \<open>Error\<close> with a message.\<close>

datatype outcome =
    Returned Response
  | Threw string

text \<open>
  The \<open>catch\<close> block of \<open>fetch\<close> (worker.ts, lines 116-119): a handler's throw becomes the
  response 500.
\<close>

fun respond :: "outcome \<Rightarrow> Response" where
  "respond (Returned r) = r"
| "respond (Threw msg) = jsonResponse (errorBody msg) 500"

definition succeeded :: "outcome \<Rightarrow> bool" where
  "succeeded out = (status (respond out) = 200)"

definition optStr :: "string option \<Rightarrow> json" where
  "optStr x = (case x of None \<Rightarrow> JNull | Some s \<Rightarrow> JStr s)"

definition optField :: "string \<Rightarrow> string option \<Rightarrow> (string \<times> json) list" where
  "optField k x = (case x of None \<Rightarrow> [] | Some s \<Rightarrow> [(k, JStr s)])"

subsection \<open>Database statements\<close>

text \<open>
  \<open>id\<close> is the primary key of both tables: an INSERT of a key that is present fails, and the
  \<open>run ()\<close> throws.
\<close>

definition insertSession :: "SessionRecord \<Rightarrow> State \<Rightarrow> string + State" where
  "insertSession s st =
     (if s_id s \<in> set (map s_id (prompt_sessions st))
      then Inl ''UNIQUE constraint failed: prompt_sessions.id''
      else Inr (st \<lparr> prompt_sessions := prompt_sessions st @ [s] \<rparr>))"

definition insertVersion :: "VersionRow \<Rightarrow> State \<Rightarrow> string + State" where
  "insertVersion v st =
     (if v_id v \<in> set (map v_id (image_versions st))
      then Inl ''UNIQUE constraint failed: image_versions.id''
      else Inr (st \<lparr> image_versions := image_versions st @ [v] \<rparr>))"

text \<open>\<open>getSessionById\<close> (worker.ts, lines 601-616).\<close>

definition getSessionById :: "State \<Rightarrow> string \<Rightarrow> SessionRecord option" where
  "getSessionById st i = find (\<lambda>row. s_id row = i) (prompt_sessions st)"

text \<open>
  \<open>getVersionById\<close> (worker.ts, lines 583-599): the object it returns, with
  \<open>base_prompt\<close> defaulted to the empty string.
\<close>

record PreviousVersion =
  pv_id :: string
  pv_parent_id :: "string option"
  pv_base_prompt :: string
  pv_metadata :: json
  pv_chat_id :: "string option"
  pv_aspect_ratio :: "string option"

definition getVersionById :: "State \<Rightarrow> string \<Rightarrow> PreviousVersion option" where
  "getVersionById st i =
     (case find (\<lambda>row. v_id row = i) (image_versions st) of
        None \<Rightarrow> None
      | Some row \<Rightarrow>
          Some \<lparr> pv_id = v_id row,
                 pv_parent_id = v_parent_id row,
                 pv_base_prompt = (case v_base_prompt row of None \<Rightarrow> [] | Some b \<Rightarrow> b),
                 pv_metadata = v_metadata row,
                 pv_chat_id = v_chat_id row,
                 pv_aspect_ratio = v_aspect_ratio row \<rparr>)"

text \<open>\<open>saveHistory\<close> (worker.ts, lines 721-727): \<open>UPDATE prompt_sessions SET history = ? WHERE id = ?\<close>.\<close>

definition saveHistory :: "string \<Rightarrow> GeminiMessage list \<Rightarrow> State \<Rightarrow> State" where
  "saveHistory sessionId history st =
     st \<lparr> prompt_sessions :=
            map (\<lambda>row. if s_id row = sessionId then row \<lparr> s_history := stringifyHistory history \<rparr> else row)
              (prompt_sessions st) \<rparr>"

text \<open>\<open>createSession\<close> (worker.ts, lines 564-581); \<open>n\<close> counts the calls of \<open>crypto.randomUUID\<close>.\<close>

definition createSession :: "World \<Rightarrow> nat \<Rightarrow> string \<Rightarrow> State \<Rightarrow> string + (SessionRecord \<times> State)" where
  "createSession w n basePrompt st =
     (let sessionId = randomUUID w n;
          hash = sha256_hex w basePrompt;
          systemPrompt = (case SYSTEM_PROMPT w of None \<Rightarrow> DEFAULT_SYSTEM_PROMPT | Some p \<Rightarrow> p);
          session = \<lparr> s_id = sessionId, s_base_prompt = basePrompt, s_system_prompt = systemPrompt,
                      s_base_prompt_hash = hash, s_history = Text_JSON (JArr []) \<rparr>
      in case insertSession session st of
           Inl e \<Rightarrow> Inl e
         | Inr st' \<Rightarrow> Inr (session, st'))"

subsection \<open>Cloudflare Images\<close>

text \<open>The \<open>replace\<close> that removes one trailing slash of the delivery URL.\<close>

definition stripTrailingSlash :: "string \<Rightarrow> string" where
  "stripTrailingSlash s = (if s \<noteq> [] \<and> last s = CHR ''/'' then butlast s else s)"

definition deliveryUrl :: "World \<Rightarrow> string \<Rightarrow> string" where
  "deliveryUrl w imageId = stripTrailingSlash (CF_IMAGES_DELIVERY_URL w) @ ''/'' @ imageId @ ''/public''"

text \<open>
  \<open>uploadToCloudflareImages\<close> (worker.ts, lines 450-484). The image is in the store exactly
  when the API answered with success and its identifier; every other answer throws.
\<close>

definition uploadToCloudflareImages ::
  "World \<Rightarrow> string \<Rightarrow> json \<Rightarrow> json \<Rightarrow> State \<Rightarrow> (string + (string \<times> string)) \<times> State" where
  "uploadToCloudflareImages w imageBytes mime metadata st =
     (case images_post w imageBytes (if js_truthy (Some mime) then mime else JStr ''image/png'') metadata of
        Images_unreachable e \<Rightarrow> (Inl e, st)
      | Images_rejected \<Rightarrow>
          (Inl ''Failed to upload to Cloudflare Images'',
           st \<lparr> console := console st @ [''Cloudflare Images error''] \<rparr>)
      | Images_stored imageId \<Rightarrow>
          (Inr (imageId, deliveryUrl w imageId),
           st \<lparr> cloudflare_images := cloudflare_images st @ [imageId] \<rparr>))"

text \<open>\<open>fetchImageAsBase64\<close> (worker.ts, lines 486-502): the pair of \<open>base64\<close> and \<open>mimeType\<close>.\<close>

definition fetchImageAsBase64 :: "World \<Rightarrow> string \<Rightarrow> string + (string \<times> string)" where
  "fetchImageAsBase64 w imageId =
     (case http_get w (deliveryUrl w imageId) of
        Inl e \<Rightarrow> Inl e
      | Inr response \<Rightarrow>
          if \<not> resp_ok response then Inl (''Unable to download image '' @ imageId @ '' for editing'')
          else Inr (btoa w (resp_body response),
                    (case resp_content_type response of None \<Rightarrow> ''image/png'' | Some m \<Rightarrow> m)))"

text \<open>
  \<open>decodeBase64\<close> (worker.ts, lines 513-521), applied to \<open>inlineData.data\<close>: \<open>data.replace\<close>
  throws a TypeError unless the value is a string.
\<close>

definition decodeBase64 :: "World \<Rightarrow> json option \<Rightarrow> string + string" where
  "decodeBase64 w d =
     (case d of
        Some (JStr s) \<Rightarrow> atob w (filter (\<lambda>c. \<not> isWhiteSpace c) s)
      | _ \<Rightarrow> Inl ''data.replace is not a function'')"

section \<open>The upload workflow\<close>

text \<open>
  The multipart request of \<open>/api/upload\<close>: the \<open>content-type\<close> header, the \<open>file\<close> field
  (its bytes and its type, when it is a \<open>File\<close>) and the text fields.
\<close>

record UploadRequest =
  u_content_type :: "string option"
  u_file :: "(string \<times> string) option"
  u_asset_type :: "string option"
  u_base_prompt :: "string option"
  u_design_intent :: "string option"
  u_aspect_ratio :: "string option"

text \<open>The \<open>imageMetadata\<close> object of \<open>handleUpload\<close> (worker.ts, lines 154-165).\<close>

definition uploadMetadata :: "World \<Rightarrow> string \<Rightarrow> string \<Rightarrow> string option \<Rightarrow> (string \<times> json) list" where
  "uploadMetadata w assetType basePromptHash aspectRatio =
     [(''asset_type'', JStr assetType),
      (''base_prompt_hash'', JStr basePromptHash),
      (''edit_instruction'', JNull),
      (''model'', JStr ''source''),
      (''timestamp'', JStr (now_iso w)),
      (''synth_id'', JBool True)]
     @ (if truthy aspectRatio \<and> the_default [] aspectRatio \<in> set SUPPORTED_ASPECT_RATIOS
        then optField ''aspect_ratio'' aspectRatio else [])"

text \<open>The session row and the version row \<open>handleUpload\<close> inserts (worker.ts, lines 145-150, 171-184).\<close>

definition uploadSession :: "World \<Rightarrow> string \<Rightarrow> string \<Rightarrow> SessionRecord" where
  "uploadSession w sessionId designIntent =
     \<lparr> s_id = sessionId,
       s_base_prompt = designIntent,
       s_system_prompt = (case SYSTEM_PROMPT w of None \<Rightarrow> DEFAULT_SYSTEM_PROMPT | Some p \<Rightarrow> p),
       s_base_prompt_hash = sha256_hex w designIntent,
       s_history = stringifyHistory [] \<rparr>"

definition uploadVersionRow ::
  "World \<Rightarrow> string \<Rightarrow> string \<Rightarrow> string \<Rightarrow> (string \<times> json) list \<Rightarrow> string \<Rightarrow> string \<Rightarrow>
   string option \<Rightarrow> VersionRow" where
  "uploadVersionRow w versionId designIntent publicUrl imageMetadata imageId sessionId aspectRatio =
     \<lparr> v_id = versionId,
       v_parent_id = None,
       v_base_prompt = Some designIntent,
       v_edit_prompt = None,
       v_model = ''source'',
       v_created_at = current_timestamp w,
       v_image_url = publicUrl,
       v_metadata =
         JObj (imageMetadata @ [(''cloudflare_image_id'', JStr imageId), (''session_id'', JStr sessionId)]),
       v_chat_id = Some sessionId,
       v_aspect_ratio = aspectRatio,
       v_diff_summary = None \<rparr>"

definition uploadResponse :: "string \<Rightarrow> string \<Rightarrow> string \<Rightarrow> string \<Rightarrow> json" where
  "uploadResponse imageId versionId sessionId publicUrl =
     JObj [(''image_id'', JStr imageId),
           (''version_id'', JStr versionId),
           (''session_id'', JStr sessionId),
           (''public_url'', JStr publicUrl),
           (''diff_summary'', JStr ''Initial upload''),
           (''followup_suggestion'',
            JStr ''Would you like to request an initial render or annotate the floor plan?'')]"

text \<open>\<open>handleUpload\<close> (worker.ts, lines 123-194).\<close>

definition handleUpload :: "World \<Rightarrow> UploadRequest \<Rightarrow> State \<Rightarrow> outcome \<times> State" where
  "handleUpload w request st =
     (let contentType = (case u_content_type request of None \<Rightarrow> [] | Some c \<Rightarrow> c) in
      if \<not> str_includes contentType ''multipart/form-data''
      then (Returned (jsonResponse (errorBody ''Expected multipart/form-data'') 415), st)
      else
        (case u_file request of
           None \<Rightarrow> (Returned (jsonResponse (errorBody ''File field is required'') 400), st)
         | Some (fileBytes, fileType) \<Rightarrow>
             let assetType = (case u_asset_type request of None \<Rightarrow> ''photo'' | Some a \<Rightarrow> a);
                 basePrompt = (case u_base_prompt request of None \<Rightarrow> [] | Some b \<Rightarrow> b);
                 designIntent = (case u_design_intent request of None \<Rightarrow> basePrompt | Some d \<Rightarrow> d);
                 aspectRatio = u_aspect_ratio request;
                 basePromptHash = sha256_hex w designIntent;
                 sessionId = randomUUID w 0
             in
               (case insertSession (uploadSession w sessionId designIntent) st of
                  Inl e \<Rightarrow> (Threw e, st)
                | Inr st1 \<Rightarrow>
                    let imageMetadata = uploadMetadata w assetType basePromptHash aspectRatio in
                      (case uploadToCloudflareImages w fileBytes
                              (JStr (if fileType \<noteq> [] then fileType else ''image/png''))
                              (JObj imageMetadata) st1 of
                         (Inl e, st2) \<Rightarrow> (Threw e, st2)
                       | (Inr (imageId, publicUrl), st2) \<Rightarrow>
                           let versionId = randomUUID w 1 in
                           (case insertVersion
                                   (uploadVersionRow w versionId designIntent publicUrl imageMetadata
                                      imageId sessionId aspectRatio)
                                   st2 of
                              Inl e \<Rightarrow> (Threw e, st2)
                            | Inr st3 \<Rightarrow>
                                (Returned
                                   (jsonResponse (uploadResponse imageId versionId sessionId publicUrl) 200),
                                 st3))))))"

section \<open>The edit workflow\<close>

text \<open>\<open>EditRequestBody\<close> (worker.ts, lines 23-32); a field the JSON body lacks is \<open>None\<close>.\<close>

record Mask =
  mask_image_id :: "string option"
  mask_data :: "string option"
  mask_mime_type :: "string option"

record EditRequestBody =
  image_ids :: "string list option"
  edit_prompt :: "string option"
  base_prompt :: "string option"
  previous_version_id :: "string option"
  aspect_ratio :: "string option"
  session_id :: "string option"
  masks :: "Mask list option"
  camera_hint :: "string option"

text \<open>\<open>buildSystemInstruction\<close> (worker.ts, lines 654-667).\<close>

definition buildSystemInstruction :: "World \<Rightarrow> string \<Rightarrow> string option \<Rightarrow> GeminiMessage" where
  "buildSystemInstruction w basePrompt cameraAngle =
     (let promptLines =
            [case SYSTEM_PROMPT w of None \<Rightarrow> DEFAULT_SYSTEM_PROMPT | Some p \<Rightarrow> p]
            @ (if basePrompt \<noteq> [] then [''Design intent: '' @ basePrompt] else [])
            @ (if truthy cameraAngle
               then [''Focus on the '' @ the_default [] cameraAngle @ '' angle unless directed otherwise.'']
               else [])
            @ [''Preserve project context across turns and never overwrite previous versions; always branch new variations.'']
      in \<lparr> role = Some (JStr ''system''),
           parts = [\<lparr> ptext = Some (join [CHR 0x0A] promptLines), inlineData = None, thought = None \<rparr>] \<rparr>)"

text \<open>\<open>generateImageFromGemini\<close> (worker.ts, lines 686-719).\<close>

definition generateImageFromGemini ::
  "World \<Rightarrow> GeminiMessage list \<Rightarrow> GeminiMessage \<Rightarrow> string option \<Rightarrow> string + json option" where
  "generateImageFromGemini w messages systemMessage aspectRatio =
     generateContent w (case GEMINI_MODEL w of None \<Rightarrow> DEFAULT_MODEL | Some m \<Rightarrow> m)
       messages systemMessage aspectRatio"

definition inlinePart :: "string \<Rightarrow> string \<Rightarrow> GeminiPart" where
  "inlinePart mime d =
     \<lparr> ptext = None, inlineData = Some \<lparr> mimeType = JStr mime, data = Some (JStr d) \<rparr>, thought = None \<rparr>"

text \<open>
  The \<open>Promise.all\<close> over \<open>body.image_ids\<close> (worker.ts, lines 246-253): one failed download
  rejects the whole.
\<close>

fun imagePayloads :: "World \<Rightarrow> string list \<Rightarrow> string + GeminiPart list" where
  "imagePayloads w [] = Inr []"
| "imagePayloads w (imageId # rest) =
     (case fetchImageAsBase64 w imageId of
        Inl e \<Rightarrow> Inl e
      | Inr (base64, mime) \<Rightarrow>
          (case imagePayloads w rest of
             Inl e \<Rightarrow> Inl e
           | Inr ps \<Rightarrow> Inr (inlinePart mime base64 # ps)))"

text \<open>The loop over \<open>body.masks\<close> (worker.ts, lines 256-270).\<close>

fun maskPayloads :: "World \<Rightarrow> Mask list \<Rightarrow> string + GeminiPart list" where
  "maskPayloads w [] = Inr []"
| "maskPayloads w (m # rest) =
     (if truthy (mask_data m)
      then (case maskPayloads w rest of
              Inl e \<Rightarrow> Inl e
            | Inr ps \<Rightarrow>
                Inr (inlinePart (the_default ''image/png'' (mask_mime_type m))
                       (the_default [] (mask_data m)) # ps))
      else if truthy (mask_image_id m)
      then (case fetchImageAsBase64 w (the_default [] (mask_image_id m)) of
              Inl e \<Rightarrow> Inl e
            | Inr (base64, mime) \<Rightarrow>
                (case maskPayloads w rest of
                   Inl e \<Rightarrow> Inl e
                 | Inr ps \<Rightarrow> Inr (inlinePart mime base64 # ps)))
      else maskPayloads w rest)"

text \<open>
  Whether \<open>candidate?.content?.parts?.length\<close> is truthy, by the value of
  \<open>candidate?.content?.parts\<close>.
\<close>

fun hasLength :: "json option \<Rightarrow> bool" where
  "hasLength (Some (JArr xs)) = (xs \<noteq> [])"
| "hasLength (Some (JStr s)) = (s \<noteq> [])"
| "hasLength (Some (JObj kvs)) = js_truthy (map_of kvs ''length'')"
| "hasLength _ = False"

text \<open>The \<open>metadata\<close> object of \<open>handleEdit\<close> (worker.ts, lines 300-312), as \<open>JSON.stringify\<close> writes it.\<close>

definition editMetadata ::
  "World \<Rightarrow> string \<Rightarrow> string list \<Rightarrow> string option \<Rightarrow> SessionRecord \<Rightarrow> string option \<Rightarrow>
   string option \<Rightarrow> (string \<times> json) list" where
  "editMetadata w editPrompt imageIds parentId session aspectRatio cameraAngle =
     [(''parent_id'', optStr parentId),
      (''edit_instruction'', JStr editPrompt),
      (''model'', JStr (case GEMINI_MODEL w of None \<Rightarrow> DEFAULT_MODEL | Some m \<Rightarrow> m)),
      (''base_prompt_hash'', JStr (s_base_prompt_hash session)),
      (''timestamp'', JStr (now_iso w)),
      (''synth_id'', JBool True),
      (''image_ids'', JArr (map JStr imageIds)),
      (''session_id'', JStr (s_id session))]
     @ optField ''angle_id'' cameraAngle
     @ optField ''aspect_ratio'' aspectRatio
     @ [(''previous_version_id'', optStr parentId)]"

text \<open>The row the INSERT of \<open>handleEdit\<close> binds (worker.ts, lines 323-339).\<close>

definition editVersionRow ::
  "World \<Rightarrow> string \<Rightarrow> string option \<Rightarrow> string \<Rightarrow> string \<Rightarrow> string \<Rightarrow> (string \<times> json) list \<Rightarrow>
   string \<Rightarrow> string \<Rightarrow> SessionRecord \<Rightarrow> string option \<Rightarrow> VersionRow" where
  "editVersionRow w versionId parentId designIntent editPrompt publicUrl metadata imageId textSummary
       session aspectRatio =
     \<lparr> v_id = versionId,
       v_parent_id = parentId,
       v_base_prompt = Some designIntent,
       v_edit_prompt = Some editPrompt,
       v_model = (case GEMINI_MODEL w of None \<Rightarrow> DEFAULT_MODEL | Some m \<Rightarrow> m),
       v_created_at = current_timestamp w,
       v_image_url = publicUrl,
       v_metadata =
         JObj (metadata @ [(''cloudflare_image_id'', JStr imageId), (''diff_summary'', JStr textSummary)]),
       v_chat_id = Some (s_id session),
       v_aspect_ratio = aspectRatio,
       v_diff_summary = (if textSummary \<noteq> [] then Some textSummary else None) \<rparr>"

text \<open>The body of the response of \<open>handleEdit\<close> (worker.ts, lines 344-350).\<close>

definition editResponse :: "string \<Rightarrow> string \<Rightarrow> string \<Rightarrow> string \<Rightarrow> string \<Rightarrow> json" where
  "editResponse imageId versionId publicUrl textSummary followup =
     JObj [(''new_image_id'', JStr imageId),
           (''version_id'', JStr versionId),
           (''public_url'', JStr publicUrl),
           (''diff_summary'', JStr (if textSummary \<noteq> [] then textSummary else ''Updated render created.'')),
           (''followup_suggestion'', JStr followup)]"

text \<open>
  The end of \<open>handleEdit\<close> (worker.ts, lines 294-350), from the summary of the model's parts
  to the response: the image is uploaded, the version row inserted, the history saved.
  \<open>n\<close> counts the calls of \<open>crypto.randomUUID\<close> made so far.
\<close>

definition persistEdit ::
  "World \<Rightarrow> nat \<Rightarrow> string \<Rightarrow> string list \<Rightarrow> string option \<Rightarrow> SessionRecord \<Rightarrow> string \<Rightarrow>
   string option \<Rightarrow> string option \<Rightarrow> GeminiMessage list \<Rightarrow> GeminiPart list \<Rightarrow> InlineData \<Rightarrow>
   State \<Rightarrow> outcome \<times> State" where
  "persistEdit w n editPrompt imageIds parentId session designIntent aspectRatio cameraAngle
       messages modelParts inline st =
     (let textSummary = summarizeParts modelParts;
          followup = buildFollowupSuggestion cameraAngle (length textSummary > 0)
      in
        (case decodeBase64 w (data inline) of
           Inl e \<Rightarrow> (Threw e, st)
         | Inr imageBytes \<Rightarrow>
             let metadata = editMetadata w editPrompt imageIds parentId session aspectRatio cameraAngle
             in
               (case uploadToCloudflareImages w imageBytes
                       (if mimeType inline = JNull then JStr ''image/png'' else mimeType inline)
                       (JObj metadata) st of
                  (Inl e, st1) \<Rightarrow> (Threw e, st1)
                | (Inr (imageId, publicUrl), st1) \<Rightarrow>
                    let versionId = randomUUID w n in
                    (case insertVersion
                            (editVersionRow w versionId parentId designIntent editPrompt publicUrl
                               metadata imageId textSummary session aspectRatio)
                            st1 of
                       Inl e \<Rightarrow> (Threw e, st1)
                     | Inr st2 \<Rightarrow>
                         let updatedHistory = messages @ [\<lparr> role = Some (JStr ''model''), parts = modelParts \<rparr>];
                             st3 = saveHistory (s_id session) (trimHistory updatedHistory maxMessages_default) st2
                         in
                           (Returned
                              (jsonResponse (editResponse imageId versionId publicUrl textSummary followup) 200),
                            st3)))))"

text \<open>
  The aspect ratio and the design intent of an edit (worker.ts, lines 233-239), and the user
  turn it adds (lines 272-275).
\<close>

definition editAspectRatio :: "EditRequestBody \<Rightarrow> PreviousVersion option \<Rightarrow> string option" where
  "editAspectRatio body previousVersion =
     (if truthy (aspect_ratio body) \<and> the_default [] (aspect_ratio body) \<in> set SUPPORTED_ASPECT_RATIOS
      then aspect_ratio body
      else (case previousVersion of None \<Rightarrow> None | Some pv \<Rightarrow> pv_aspect_ratio pv))"

definition editDesignIntent :: "PreviousVersion option \<Rightarrow> SessionRecord \<Rightarrow> string" where
  "editDesignIntent previousVersion session =
     (case previousVersion of None \<Rightarrow> s_base_prompt session | Some pv \<Rightarrow> pv_base_prompt pv)"

definition userTurn :: "string \<Rightarrow> GeminiPart list \<Rightarrow> GeminiMessage" where
  "userTurn editPrompt inlineParts =
     \<lparr> role = Some (JStr ''user''),
       parts = \<lparr> ptext = Some editPrompt, inlineData = None, thought = None \<rparr> # inlineParts \<rparr>"

text \<open>
  The middle of \<open>handleEdit\<close> (worker.ts, lines 233-292), once the session is resolved:
  the turns are assembled, the model is called and its reply is examined.
\<close>

definition editWithSession ::
  "World \<Rightarrow> nat \<Rightarrow> EditRequestBody \<Rightarrow> string \<Rightarrow> string list \<Rightarrow> PreviousVersion option \<Rightarrow>
   SessionRecord \<Rightarrow> State \<Rightarrow> outcome \<times> State" where
  "editWithSession w n body editPrompt imageIds previousVersion session st =
     (let parentId = map_option pv_id previousVersion;
          aspectRatio = editAspectRatio body previousVersion;
          cameraAngle = inferCameraAngle editPrompt (camera_hint body);
          designIntent = editDesignIntent previousVersion session;
          (conversation, warnings) = parseHistory (s_history session);
          st1 = st \<lparr> console := console st @ warnings \<rparr>
      in
        (case imagePayloads w imageIds of
           Inl e \<Rightarrow> (Threw e, st1)
         | Inr images \<Rightarrow>
             (case maskPayloads w (case masks body of None \<Rightarrow> [] | Some ms \<Rightarrow> ms) of
                Inl e \<Rightarrow> (Threw e, st1)
              | Inr maskParts \<Rightarrow>
                  let inlineParts = images @ maskParts;
                      userMessage = userTurn editPrompt inlineParts;
                      systemInstruction = buildSystemInstruction w designIntent cameraAngle;
                      messages = conversation @ [userMessage]
                  in
                    (case generateImageFromGemini w messages systemInstruction aspectRatio of
                       Inl e \<Rightarrow> (Threw e, st1)
                     | Inr candidateParts \<Rightarrow>
                         if \<not> hasLength candidateParts
                         then (Returned (jsonResponse (errorBody ''Gemini response did not include image data'') 502), st1)
                         else
                           (case candidateParts of
                              Some (JArr ps) \<Rightarrow>
                                (case normalizeParts ps of
                                   None \<Rightarrow> (Threw ''Cannot read properties of null'', st1)
                                 | Some modelParts \<Rightarrow>
                                     (case find (\<lambda>part. inlineData part \<noteq> None) modelParts of
                                        None \<Rightarrow>
                                          (Returned (jsonResponse (errorBody ''Gemini response missing inline image'') 502), st1)
                                      | Some inlineImagePart \<Rightarrow>
                                          (case inlineData inlineImagePart of
                                             None \<Rightarrow>
                                               (Returned (jsonResponse (errorBody ''Gemini response missing inline image'') 502), st1)
                                           | Some inline \<Rightarrow>
                                               persistEdit w n editPrompt imageIds parentId session designIntent
                                                 aspectRatio cameraAngle messages modelParts inline st1)))
                            | _ \<Rightarrow> (Threw ''parts.map is not a function'', st1))))))"

text \<open>
  The session resolution of \<open>handleEdit\<close> (worker.ts, lines 217-227). The result is the
  session (\<open>null\<close> as \<open>None\<close>), the number of calls of \<open>crypto.randomUUID\<close> made, and the state.
\<close>

definition resolveSession ::
  "World \<Rightarrow> EditRequestBody \<Rightarrow> PreviousVersion option \<Rightarrow> State \<Rightarrow>
   string + (SessionRecord option \<times> nat \<times> State)" where
  "resolveSession w body previousVersion st =
     (let session1 =
            (case previousVersion of
               None \<Rightarrow> None
             | Some pv \<Rightarrow>
                 if truthy (pv_chat_id pv) then getSessionById st (the_default [] (pv_chat_id pv)) else None);
          session2 =
            (if session1 = None \<and> truthy (session_id body)
             then getSessionById st (the_default [] (session_id body))
             else session1)
      in
        if session2 = None \<and> truthy (base_prompt body)
        then (case createSession w 0 (the_default [] (base_prompt body)) st of
                Inl e \<Rightarrow> Inl e
              | Inr (session, st') \<Rightarrow> Inr (Some session, 1, st'))
        else Inr (session2, 0, st))"

text \<open>
  \<open>handleEdit\<close> (worker.ts, lines 196-351). The request is its parsed JSON body, \<open>None\<close>
  when \<open>request.json ()\<close> throws.
\<close>

definition handleEdit :: "World \<Rightarrow> EditRequestBody option \<Rightarrow> State \<Rightarrow> outcome \<times> State" where
  "handleEdit w request st =
     (case request of
        None \<Rightarrow> (Returned (jsonResponse (errorBody ''Invalid JSON body'') 400), st)
      | Some body \<Rightarrow>
          (case image_ids body of
             None \<Rightarrow> (Returned (jsonResponse (errorBody ''At least one image_id is required'') 400), st)
           | Some imageIds \<Rightarrow>
               if imageIds = []
               then (Returned (jsonResponse (errorBody ''At least one image_id is required'') 400), st)
               else if \<not> truthy (edit_prompt body)
               then (Returned (jsonResponse (errorBody ''edit_prompt is required'') 400), st)
               else
                 let previousVersion =
                       (if truthy (previous_version_id body)
                        then getVersionById st (the_default [] (previous_version_id body))
                        else None)
                 in
                   (case resolveSession w body previousVersion st of
                      Inl e \<Rightarrow> (Threw e, st)
                    | Inr (None, n, st1) \<Rightarrow>
                        (Returned (jsonResponse (errorBody ''A session or base prompt is required to edit'') 400), st1)
                    | Inr (Some session, n, st1) \<Rightarrow>
                        editWithSession w n body (the_default [] (edit_prompt body)) imageIds
                          previousVersion session st1)))"

section \<open>Queries over the version graph\<close>

subsection \<open>Latest render of an angle\<close>

text \<open>
  The rows the WHERE clause of \<open>handleRenderAngle\<close> selects:
  \<open>json_extract (metadata, '$.angle_id') = ?\<close>. A missing key and a JSON \<open>null\<close> extract to
  SQL NULL, which equals nothing.
\<close>

definition angleMatches :: "State \<Rightarrow> string \<Rightarrow> VersionRow list" where
  "angleMatches st angleId =
     filter (\<lambda>row. getProp (v_metadata row) ''angle_id'' = Some (JStr angleId)) (image_versions st)"

text \<open>
  What \<open>first ()\<close> gives for
  \<open>SELECT ... WHERE ... ORDER BY datetime (created_at) DESC LIMIT 1\<close>, as SQLite and D1
  evaluate the statement: the table is scanned in the order of its rowids, which is the
  order of insertion (the worker deletes no row); the rows that satisfy WHERE are put in
  descending order of \<open>created_at\<close> by a sort that keeps rows of equal key in the order of
  the scan; \<open>LIMIT 1\<close> takes the first of them, if there is one.
\<close>

definition renderAngleRow :: "State \<Rightarrow> string \<Rightarrow> VersionRow option" where
  "renderAngleRow st angleId =
     (case sort_key (\<lambda>row. - int (v_created_at row)) (angleMatches st angleId) of
        [] \<Rightarrow> None
      | row # rest \<Rightarrow> Some row)"

text \<open>The response of \<open>handleRenderAngle\<close> for the row found (worker.ts, lines 369-378).\<close>

definition renderAngleResponse :: "VersionRow option \<Rightarrow> Response" where
  "renderAngleResponse result =
     (case result of
        None \<Rightarrow> jsonResponse (errorBody ''No render found for that angle'') 404
      | Some row \<Rightarrow>
          jsonResponse
            (JObj [(''version_id'', JStr (v_id row)),
                   (''public_url'', JStr (v_image_url row)),
                   (''diff_summary'', optStr (v_diff_summary row)),
                   (''metadata'', v_metadata row)])
            200)"

text \<open>\<open>handleRenderAngle\<close> (worker.ts, lines 353-379), by the \<open>angle_id\<close> parameter of the URL.\<close>

definition handleRenderAngle :: "string option \<Rightarrow> State \<Rightarrow> Response" where
  "handleRenderAngle angleId st =
     (if \<not> truthy angleId then jsonResponse (errorBody ''angle_id is required'') 400
      else renderAngleResponse (renderAngleRow st (the_default [] angleId)))"

subsection \<open>Lineage\<close>

text \<open>
  The recursive common table expression of \<open>handleHistory\<close> (worker.ts, lines 383-389).
  Its rows of depth 0 are the rows with the queried id; the rows of depth \<open>d + 1\<close> are the
  rows of \<open>image_versions\<close> joined to a row of depth \<open>d\<close> on \<open>iv.parent_id = history.id\<close>, for
  each row of depth \<open>d\<close> in turn its children in the order of the table. The recursion ends
  with the first depth that has no row, and runs forever if there is none: \<open>cteLevels\<close> is
  then \<open>None\<close>. \<open>historyCte\<close> is the rows of \<open>history\<close>, each with its depth, in the order the
  recursion produces them.
\<close>

definition cteSeed :: "State \<Rightarrow> string \<Rightarrow> VersionRow list" where
  "cteSeed st i = filter (\<lambda>row. v_id row = i) (image_versions st)"

definition cteStep :: "State \<Rightarrow> VersionRow list \<Rightarrow> VersionRow list" where
  "cteStep st level =
     concat (map (\<lambda>h. filter (\<lambda>iv. v_parent_id iv = Some (v_id h)) (image_versions st)) level)"

partial_function (option) cteLevels :: "State \<Rightarrow> VersionRow list \<Rightarrow> VersionRow list list option" where
  "cteLevels st level =
     (if level = [] then Some []
      else Option.bind (cteLevels st (cteStep st level)) (\<lambda>deeper. Some (level # deeper)))"

definition historyCte :: "State \<Rightarrow> string \<Rightarrow> (nat \<times> VersionRow) list option" where
  "historyCte st i =
     map_option (\<lambda>levels. concat (map (\<lambda>(d, level). map (Pair d) level) (enumerate 0 levels)))
       (cteLevels st (cteSeed st i))"

text \<open>
  The outer SELECT (worker.ts, lines 390-392), as SQLite and D1 evaluate it:
  \<open>image_versions\<close> is scanned in the order of its rowids, the order of insertion, and each
  of its rows is joined to the rows of \<open>history\<close> with its id; the joined rows, each an
  \<open>image_versions\<close> row with the depth of the \<open>history\<close> row, are put in order of depth by a
  sort that keeps rows of equal depth in the order of the scan.
\<close>

definition historyJoin :: "State \<Rightarrow> (nat \<times> VersionRow) list \<Rightarrow> (nat \<times> VersionRow) list" where
  "historyJoin st cte =
     concat (map (\<lambda>iv. map (\<lambda>(d, h). (d, iv)) (filter (\<lambda>(d, h). v_id iv = v_id h) cte))
               (image_versions st))"

definition historyRows :: "State \<Rightarrow> string \<Rightarrow> (nat \<times> VersionRow) list option" where
  "historyRows st i = map_option (\<lambda>cte. sort_key fst (historyJoin st cte)) (historyCte st i)"

text \<open>
  \<open>handleHistory\<close> (worker.ts, lines 381-408): the response for the rows of the statement;
  \<open>None\<close> when the statement does not end.
\<close>

definition versionJson :: "VersionRow \<Rightarrow> json" where
  "versionJson row =
     JObj [(''id'', JStr (v_id row)),
           (''parent_id'', optStr (v_parent_id row)),
           (''image_url'', JStr (v_image_url row)),
           (''edit_prompt'', optStr (v_edit_prompt row)),
           (''diff_summary'', optStr (v_diff_summary row)),
           (''metadata'', v_metadata row),
           (''created_at'', JNum (int (v_created_at row)))]"

definition handleHistory :: "State \<Rightarrow> string \<Rightarrow> Response option" where
  "handleHistory st i =
     map_option (\<lambda>rows. jsonResponse (JObj [(''versions'', JArr (map (versionJson \<circ> snd) rows))]) 200)
       (historyRows st i)"

text \<open>
  The versions below the queried id: \<open>descendant st i d row\<close> when \<open>row\<close> is reached from the
  version \<open>i\<close> by \<open>d\<close> steps from a version to one that names it as its parent.
\<close>

inductive descendant :: "State \<Rightarrow> string \<Rightarrow> nat \<Rightarrow> VersionRow \<Rightarrow> bool" for st :: State and i :: string where
  self: "row \<in> set (image_versions st) \<Longrightarrow> v_id row = i \<Longrightarrow> descendant st i 0 row"
| child: "descendant st i d h \<Longrightarrow> row \<in> set (image_versions st) \<Longrightarrow> v_parent_id row = Some (v_id h)
          \<Longrightarrow> descendant st i (Suc d) row"

text \<open>
  The shape the worker gives the version table: ids are unique (the primary key), and a
  row's parent, when it has one, is a row inserted before it.
\<close>

fun parentsFirst :: "string list \<Rightarrow> VersionRow list \<Rightarrow> bool" where
  "parentsFirst seen [] = True"
| "parentsFirst seen (row # rows) =
     (v_id row \<notin> set seen
      \<and> (case v_parent_id row of None \<Rightarrow> True | Some p \<Rightarrow> p \<in> set seen)
      \<and> parentsFirst (seen @ [v_id row]) rows)"

definition forest :: "State \<Rightarrow> bool" where
  "forest st = parentsFirst [] (image_versions st)"

section \<open>Notions the properties are stated with\<close>

text \<open>
  The states the worker can bring about: it starts on empty tables, and every request to
  \<open>/api/upload\<close> or \<open>/api/edit\<close>, in whatever world it runs, takes a state to the next.
\<close>

inductive reachable :: "State \<Rightarrow> bool" where
  initial: "prompt_sessions st = [] \<Longrightarrow> image_versions st = [] \<Longrightarrow> reachable st"
| upload: "reachable st \<Longrightarrow> handleUpload w request st = (out, st') \<Longrightarrow> reachable st'"
| edit: "reachable st \<Longrightarrow> handleEdit w body st = (out, st') \<Longrightarrow> reachable st'"

text \<open>The number of turns a stored history holds, when it is a JSON array.\<close>

fun historyLength :: "stored_text \<Rightarrow> nat option" where
  "historyLength (Text_JSON (JArr turns)) = Some (length turns)"
| "historyLength _ = None"






text \<open>
  The artifact a version row refers to is the \<open>cloudflare_image_id\<close> of its metadata; the
  row's \<open>image_url\<close> is the public URL of that image. The artifact is stored when
  Cloudflare Images holds an image of that identifier.
\<close>

definition artifactOf :: "VersionRow \<Rightarrow> json option" where
  "artifactOf row = getProp (v_metadata row) ''cloudflare_image_id''"

definition endsWith :: "string \<Rightarrow> string \<Rightarrow> bool" where
  "endsWith s k = (length k \<le> length s \<and> drop (length s - length k) s = k)"

definition artifactStored :: "State \<Rightarrow> VersionRow \<Rightarrow> bool" where
  "artifactStored st row =
     (case artifactOf row of
        Some (JStr imageId) \<Rightarrow>
          imageId \<in> set (cloudflare_images st)
          \<and> endsWith (v_image_url row) (''/'' @ imageId @ ''/public'')
      | _ \<Rightarrow> False)"

text \<open>
  The session that the previous version named by a request refers to, and the session that
  the request's \<open>session_id\<close> names; \<open>None\<close> when the request gives no such id or the id
  resolves to no record.
\<close>

definition sessionOfPrevious :: "State \<Rightarrow> EditRequestBody \<Rightarrow> SessionRecord option" where
  "sessionOfPrevious st body =
     (case previous_version_id body of
        None \<Rightarrow> None
      | Some i \<Rightarrow>
          if i = [] then None
          else
            (case find (\<lambda>row. v_id row = i) (image_versions st) of
               None \<Rightarrow> None
             | Some row \<Rightarrow>
                 (case v_chat_id row of
                    None \<Rightarrow> None
                  | Some c \<Rightarrow> if c = [] then None else find (\<lambda>s. s_id s = c) (prompt_sessions st))))"

definition sessionOfId :: "State \<Rightarrow> EditRequestBody \<Rightarrow> SessionRecord option" where
  "sessionOfId st body =
     (case session_id body of
        None \<Rightarrow> None
      | Some i \<Rightarrow> if i = [] then None else find (\<lambda>s. s_id s = i) (prompt_sessions st))"

text \<open>
  The order the specification gives a lineage: by depth, and among the versions of one
  depth by the time of creation.
\<close>

definition lineageOrder :: "(nat \<times> VersionRow) list \<Rightarrow> bool" where
  "lineageOrder answer =
     sorted_wrt (\<lambda>(d, a) (e, b). d < e \<or> (d = e \<and> v_created_at a \<le> v_created_at b)) answer"

section \<open>Worlds, requests and tables for the examples\<close>

text \<open>
  A world for one request: \<open>tag\<close> makes its UUIDs, \<open>now\<close> is the database's clock, \<open>reply\<close> is what
  the model answers and \<open>stored\<close> what Cloudflare Images answers. The digest is a stand-in;
  every download succeeds.
\<close>

definition demoWorld :: "string \<Rightarrow> nat \<Rightarrow> (string + json option) \<Rightarrow> images_reply \<Rightarrow> World" where
  "demoWorld tag now reply stored =
     \<lparr> GEMINI_MODEL = None,
       SYSTEM_PROMPT = Some ''You edit floor plans.'',
       CF_IMAGES_DELIVERY_URL = ''https://imagedelivery.net/acct/'',
       CF_IMAGES_TOKEN = ''token'',
       sha256_hex = (\<lambda>s. ''sha256 of '' @ s),
       randomUUID = (\<lambda>n. tag @ (if n = 0 then ''-a'' else ''-b'')),
       now_iso = ''2025-01-01T00:00:00.000Z'',
       current_timestamp = now,
       http_get = (\<lambda>url. Inr \<lparr> resp_ok = True, resp_content_type = Some ''image/png'', resp_body = ''PNG'' \<rparr>),
       btoa = (\<lambda>s. s),
       atob = Inr,
       generateContent = (\<lambda>model messages systemMessage aspectRatio. reply),
       images_post = (\<lambda>bytes mime metadata. stored) \<rparr>"

definition emptyState :: State where
  "emptyState = \<lparr> prompt_sessions = [], image_versions = [], cloudflare_images = [], console = [] \<rparr>"

text \<open>Replies of the model: an image alone, and an image with a line of commentary.\<close>

definition imagePart :: json where
  "imagePart = JObj [(''inlineData'', JObj [(''mimeType'', JStr ''image/png''), (''data'', JStr ''QUJD'')])]"

definition replyImage :: "string + json option" where
  "replyImage = Inr (Some (JArr [imagePart]))"

definition replyImageText :: "string + json option" where
  "replyImageText = Inr (Some (JArr [JObj [(''text'', JStr '' Added a skylight. '')], imagePart]))"

definition replyTextOnly :: "string + json option" where
  "replyTextOnly = Inr (Some (JArr [JObj [(''text'', JStr ''I cannot draw that.'')]]))"


text \<open>
  A world whose model throws on every call that brings turns, and answers a call without
  turns with an image.
\<close>

definition pickyWorld :: World where
  "pickyWorld =
     (demoWorld ''r2'' 200 replyImage (Images_stored ''img-2''))
       \<lparr> generateContent :=
           (\<lambda>model messages systemMessage aspectRatio.
              if messages = [] then Inr (Some (JArr [imagePart])) else Inl ''quota exceeded'') \<rparr>"

text \<open>An upload with a design intent, and one that gives neither \<open>design_intent\<close> nor \<open>base_prompt\<close>.\<close>

definition uploadRequest :: UploadRequest where
  "uploadRequest =
     \<lparr> u_content_type = Some ''multipart/form-data; boundary=x'',
       u_file = Some (''PLAN'', ''image/png''),
       u_asset_type = None,
       u_base_prompt = None,
       u_design_intent = Some ''modern kitchen'',
       u_aspect_ratio = None \<rparr>"

definition bareUploadRequest :: UploadRequest where
  "bareUploadRequest = uploadRequest \<lparr> u_design_intent := None \<rparr>"

text \<open>An edit of one image that brings its own design intent and names no session or version.\<close>

definition editRequest :: EditRequestBody where
  "editRequest =
     \<lparr> image_ids = Some [''img-1''],
       edit_prompt = Some ''add a skylight'',
       base_prompt = Some ''modern kitchen'',
       previous_version_id = None,
       aspect_ratio = None,
       session_id = None,
       masks = None,
       camera_hint = None \<rparr>"

text \<open>The state after the upload, in a world whose image store answers with \<open>img-1\<close>.\<close>

definition uploadedState :: State where
  "uploadedState = snd (handleUpload (demoWorld ''r1'' 100 replyImage (Images_stored ''img-1'')) uploadRequest emptyState)"

text \<open>
  The state after an edit of the uploaded version, in a world whose model answers with an
  image and a line of commentary.
\<close>

definition followUpRequest :: EditRequestBody where
  "followUpRequest =
     editRequest \<lparr> edit_prompt := Some ''render the patio view'',
                   base_prompt := None,
                   previous_version_id := Some ''r1-b'' \<rparr>"

definition editedState :: State where
  "editedState =
     snd (handleEdit (demoWorld ''r2'' 200 replyImageText (Images_stored ''img-2''))
            (Some followUpRequest) uploadedState)"

text \<open>
  Two edits that name a record that does not exist: a previous version \<open>missing\<close> beside the
  stored session \<open>r1-a\<close>, and a session \<open>missing\<close> beside a design intent.
\<close>

definition staleVersionRequest :: EditRequestBody where
  "staleVersionRequest =
     followUpRequest \<lparr> previous_version_id := Some ''missing'', session_id := Some ''r1-a'' \<rparr>"

definition staleSessionRequest :: EditRequestBody where
  "staleSessionRequest =
     followUpRequest \<lparr> previous_version_id := None, session_id := Some ''missing'',
                       base_prompt := Some ''modern kitchen'' \<rparr>"



text \<open>
  A second edit of the uploaded version for the patio, stored in the same second as the
  first; and the state of a thread of five versions: the upload \<open>r1-b\<close>, two edits of it
  (\<open>r2-a\<close>, then \<open>r3-a\<close>), an edit of \<open>r3-a\<close> (\<open>r4-a\<close>) and then an edit of \<open>r2-a\<close> (\<open>r5-a\<close>).
\<close>

definition tiedState :: State where
  "tiedState =
     snd (handleEdit (demoWorld ''r3'' 200 replyImage (Images_stored ''img-3''))
            (Some followUpRequest) editedState)"

definition editOf :: "string \<Rightarrow> EditRequestBody" where
  "editOf versionId = followUpRequest \<lparr> edit_prompt := Some ''add a skylight'', previous_version_id := Some versionId \<rparr>"

definition cousinsState :: State where
  "cousinsState =
     snd (handleEdit (demoWorld ''r5'' 500 replyImage (Images_stored ''img-5'')) (Some (editOf ''r2-a''))
       (snd (handleEdit (demoWorld ''r4'' 400 replyImage (Images_stored ''img-4'')) (Some (editOf ''r3-a''))
         (snd (handleEdit (demoWorld ''r3'' 300 replyImage (Images_stored ''img-3'')) (Some (editOf ''r1-b''))
           editedState)))))"

section \<open>Properties of the angle tagger\<close>

lemma startsWith_iff: "startsWith s k \<longleftrightarrow> (\<exists>ss. s = k @ ss)"
  unfolding startsWith_def by (metis append_eq_conv_conj append_take_drop_id)

lemma str_includes_iff: "str_includes s k \<longleftrightarrow> (\<exists>ps ss. s = ps @ k @ ss)"
proof (induction s)
  case Nil
  then show ?case by auto
next
  case (Cons c cs)
  show ?case
  proof
    assume "str_includes (c # cs) k"
    then consider "startsWith (c # cs) k" | "str_includes cs k" by auto
    then show "\<exists>ps ss. c # cs = ps @ k @ ss"
    proof cases
      case 1
      then obtain ss where "c # cs = k @ ss" using startsWith_iff by blast
      then have "c # cs = [] @ k @ ss" by simp
      then show ?thesis by blast
    next
      case 2
      then obtain ps ss where "cs = ps @ k @ ss" using Cons.IH by blast
      then have "c # cs = (c # ps) @ k @ ss" by simp
      then show ?thesis by blast
    qed
  next
    assume "\<exists>ps ss. c # cs = ps @ k @ ss"
    then obtain ps ss where e: "c # cs = ps @ k @ ss" by blast
    show "str_includes (c # cs) k"
    proof (cases ps)
      case Nil
      then have "startsWith (c # cs) k" using e startsWith_iff by auto
      then show ?thesis by simp
    next
      case (Cons p ps')
      then have "cs = ps' @ k @ ss" using e by simp
      then have "str_includes cs k" using Cons.IH by blast
      then show ?thesis by simp
    qed
  qed
qed

lemma scanKeywords_None: "scanKeywords l K = None \<longleftrightarrow> (\<forall>ka \<in> set K. \<not> str_includes l (fst ka))"
  by (induction l K rule: scanKeywords.induct) auto

lemma scanKeywords_first:
  "i < length K \<Longrightarrow> str_includes l (fst (K ! i)) \<Longrightarrow> (\<forall>j<i. \<not> str_includes l (fst (K ! j)))
   \<Longrightarrow> scanKeywords l K = Some (snd (K ! i))"
proof (induction l K arbitrary: i rule: scanKeywords.induct)
  case (1 lower)
  then show ?case by simp
next
  case (2 lower keyword angle rest)
  show ?case
  proof (cases i)
    case 0
    then show ?thesis using 2 by simp
  next
    case (Suc i')
    have n: "\<not> str_includes lower keyword" using 2(4) Suc by auto
    have "scanKeywords lower rest = Some (snd (rest ! i'))"
    proof (rule 2(1)[OF n])
      show "i' < length rest" using 2(2) Suc by simp
      show "str_includes lower (fst (rest ! i'))" using 2(3) Suc by simp
      show "\<forall>j<i'. \<not> str_includes lower (fst (rest ! j))"
        using 2(4) Suc by auto
    qed
    then show ?thesis using n Suc by simp
  qed
qed

lemma trim_Nil: "trim [] = []" by (simp add: trim_def)

text \<open>
  Claim C6, as the code has it. A hint that is not blank wins over the text, and the label is
  the hint with the white space at its ends removed (\<open>explicit.trim ()\<close>), not the hint as
  it was given. Without such a hint the label depends on the text only through its lower
  case: it is the label of the first keyword, in the order of \<open>CAMERA_KEYWORDS\<close>, that
  occurs in the lowered text as a contiguous substring, and there is no label exactly when
  no keyword occurs. The function is pure, so equal inputs give equal labels.
\<close>

theorem inferCameraAngle_trimmed_hint:
  "(explicit = Some h \<and> trim h \<noteq> [] \<longrightarrow> inferCameraAngle prompt explicit = Some (trim h))
   \<and> (explicit = None \<or> trim (the_default [] explicit) = [] \<longrightarrow>
        (inferCameraAngle prompt explicit = None
           \<longleftrightarrow> (\<forall>ka \<in> set CAMERA_KEYWORDS. \<not> (\<exists>ps ss. toLowerCase prompt = ps @ fst ka @ ss)))
        \<and> (\<forall>i < length CAMERA_KEYWORDS.
              (\<exists>ps ss. toLowerCase prompt = ps @ fst (CAMERA_KEYWORDS ! i) @ ss)
              \<and> (\<forall>j < i. \<not> (\<exists>ps ss. toLowerCase prompt = ps @ fst (CAMERA_KEYWORDS ! j) @ ss))
              \<longrightarrow> inferCameraAngle prompt explicit = Some (snd (CAMERA_KEYWORDS ! i))))
   \<and> (toLowerCase prompt' = toLowerCase prompt
        \<longrightarrow> inferCameraAngle prompt' explicit = inferCameraAngle prompt explicit)"
proof (intro conjI impI)
  assume "explicit = Some h \<and> trim h \<noteq> []"
  then show "inferCameraAngle prompt explicit = Some (trim h)"
    by (auto simp: inferCameraAngle_def trim_Nil)
next
  assume a: "explicit = None \<or> trim (the_default [] explicit) = []"
  then have e: "inferCameraAngle prompt explicit = scanKeywords (toLowerCase prompt) CAMERA_KEYWORDS"
    by (auto simp: inferCameraAngle_def split: option.splits)
  show "inferCameraAngle prompt explicit = None
           \<longleftrightarrow> (\<forall>ka \<in> set CAMERA_KEYWORDS. \<not> (\<exists>ps ss. toLowerCase prompt = ps @ fst ka @ ss))"
    unfolding e scanKeywords_None str_includes_iff ..
  show "\<forall>i < length CAMERA_KEYWORDS.
              (\<exists>ps ss. toLowerCase prompt = ps @ fst (CAMERA_KEYWORDS ! i) @ ss)
              \<and> (\<forall>j < i. \<not> (\<exists>ps ss. toLowerCase prompt = ps @ fst (CAMERA_KEYWORDS ! j) @ ss))
              \<longrightarrow> inferCameraAngle prompt explicit = Some (snd (CAMERA_KEYWORDS ! i))"
    unfolding e using scanKeywords_first[of _ CAMERA_KEYWORDS "toLowerCase prompt"]
    unfolding str_includes_iff by blast
next
  assume "toLowerCase prompt' = toLowerCase prompt"
  then show "inferCameraAngle prompt' explicit = inferCameraAngle prompt explicit"
    by (cases explicit) (simp_all add: inferCameraAngle_def)
qed

text \<open>
  Claim C6 as stated says the hint is returned verbatim. The hint \<open>" patio "\<close> is not blank,
  and the label is \<open>"patio"\<close>.
\<close>

theorem inferCameraAngle_hint_not_verbatim:
  "trim '' patio '' \<noteq> [] \<and> inferCameraAngle ''add a skylight'' (Some '' patio '') \<noteq> Some '' patio ''"
  by (simp add: inferCameraAngle_def trim_def isWhiteSpace_def)

text \<open>The theorem at a padded hint, at a prompt that names the patio, and at two spellings of it.\<close>

lemma kw_patio: "toLowerCase ''Render the PATIO view'' = ''render the '' @ fst (CAMERA_KEYWORDS ! 1) @ '' view''"
  by (simp add: toLowerCase_def toLowerChar_def CAMERA_KEYWORDS_def)

theorem inferCameraAngle_trimmed_hint_witness:
  "inferCameraAngle ''add a skylight'' (Some '' patio '') = Some ''patio''
   \<and> inferCameraAngle ''Render the PATIO view'' None = Some ''patio''
   \<and> inferCameraAngle ''RENDER THE PATIO VIEW'' None = inferCameraAngle ''Render the PATIO view'' None"
proof (intro conjI)
  have h: "Some '' patio '' = Some '' patio '' \<and> trim '' patio '' \<noteq> []"
    by (simp add: trim_def isWhiteSpace_def)
  have "inferCameraAngle ''add a skylight'' (Some '' patio '') = Some (trim '' patio '')"
    using inferCameraAngle_trimmed_hint[THEN conjunct1, rule_format, OF h] .
  then show "inferCameraAngle ''add a skylight'' (Some '' patio '') = Some ''patio''"
    by (simp add: trim_def isWhiteSpace_def)
next
  have i: "(1::nat) < length CAMERA_KEYWORDS" by (simp add: CAMERA_KEYWORDS_def)
  have occ: "\<exists>ps ss. toLowerCase ''Render the PATIO view'' = ps @ fst (CAMERA_KEYWORDS ! 1) @ ss"
    using kw_patio by blast
  have no: "\<forall>j<(1::nat). \<not> (\<exists>ps ss. toLowerCase ''Render the PATIO view'' = ps @ fst (CAMERA_KEYWORDS ! j) @ ss)"
  proof -
    have "\<not> str_includes (toLowerCase ''Render the PATIO view'') (fst (CAMERA_KEYWORDS ! 0))"
      by (simp add: toLowerCase_def toLowerChar_def CAMERA_KEYWORDS_def startsWith_def)
    then show ?thesis unfolding str_includes_iff by simp
  qed
  have "inferCameraAngle ''Render the PATIO view'' None = Some (snd (CAMERA_KEYWORDS ! 1))"
    using inferCameraAngle_trimmed_hint[of None _ "''Render the PATIO view''", THEN conjunct2, THEN conjunct1, rule_format, THEN conjunct2, rule_format, OF _ i] occ no
    by blast
  then show "inferCameraAngle ''Render the PATIO view'' None = Some ''patio''"
    by (simp add: CAMERA_KEYWORDS_def)
next
  have l: "toLowerCase ''RENDER THE PATIO VIEW'' = toLowerCase ''Render the PATIO view''"
    by (simp add: toLowerCase_def toLowerChar_def)
  show "inferCameraAngle ''RENDER THE PATIO VIEW'' None = inferCameraAngle ''Render the PATIO view'' None"
    using inferCameraAngle_trimmed_hint[THEN conjunct2, THEN conjunct2, rule_format, OF l] .
qed

section \<open>What a request does to the state\<close>

lemma succeeded_Threw [simp]: "\<not> succeeded (Threw e)"
  by (simp add: succeeded_def jsonResponse_def)

lemma status_jsonResponse [simp]: "status (jsonResponse d n) = n"
  by (simp add: jsonResponse_def)

lemma succeeded_Returned [simp]: "succeeded (Returned (jsonResponse d n)) \<longleftrightarrow> n = 200"
  by (simp add: succeeded_def jsonResponse_def)

lemma uploadToCloudflareImages_effect:
  assumes "uploadToCloudflareImages w b m md st = (r, st')"
  shows "prompt_sessions st' = prompt_sessions st \<and> image_versions st' = image_versions st
         \<and> (case r of
               Inl e \<Rightarrow> cloudflare_images st' = cloudflare_images st
             | Inr (i, url) \<Rightarrow>
                 cloudflare_images st' = cloudflare_images st @ [i] \<and> url = deliveryUrl w i
                 \<and> (\<exists>m'. images_post w b m' md = Images_stored i))"
  using assms by (auto simp: uploadToCloudflareImages_def split: images_reply.splits)

lemma insertVersion_effect:
  assumes "insertVersion v st = Inr st'"
  shows "st' = st \<lparr> image_versions := image_versions st @ [v] \<rparr> \<and> v_id v \<notin> set (map v_id (image_versions st))"
  using assms by (auto simp: insertVersion_def split: if_splits)

lemma insertSession_effect:
  assumes "insertSession s st = Inr st'"
  shows "st' = st \<lparr> prompt_sessions := prompt_sessions st @ [s] \<rparr>
         \<and> s_id s \<notin> set (map s_id (prompt_sessions st))"
  using assms by (auto simp: insertSession_def split: if_splits)

text \<open>The end of the edit workflow either fails and leaves both tables alone, or runs to its end.\<close>

lemma persistEdit_cases:
  assumes "persistEdit w n ep ids parentId session di ar ca msgs mps inline st = (out, st')"
  obtains (failed) "\<not> succeeded out" "prompt_sessions st' = prompt_sessions st"
      "image_versions st' = image_versions st"
      "set (cloudflare_images st) \<subseteq> set (cloudflare_images st')"
      "status (respond out) = 500"
    | (stored) imageBytes imageId st1 st2 where
      "decodeBase64 w (data inline) = Inr imageBytes"
      "uploadToCloudflareImages w imageBytes
         (if mimeType inline = JNull then JStr ''image/png'' else mimeType inline)
         (JObj (editMetadata w ep ids parentId session ar ca)) st
       = (Inr (imageId, deliveryUrl w imageId), st1)"
      "insertVersion
         (editVersionRow w (randomUUID w n) parentId di ep (deliveryUrl w imageId)
            (editMetadata w ep ids parentId session ar ca) imageId (summarizeParts mps) session ar)
         st1 = Inr st2"
      "out = Returned (jsonResponse
                (editResponse imageId (randomUUID w n) (deliveryUrl w imageId) (summarizeParts mps)
                   (buildFollowupSuggestion ca (length (summarizeParts mps) > 0))) 200)"
      "st' = saveHistory (s_id session)
               (trimHistory (msgs @ [\<lparr> role = Some (JStr ''model''), parts = mps \<rparr>]) maxMessages_default) st2"
proof (cases "decodeBase64 w (data inline)")
  case (Inl e)
  then show ?thesis using assms failed by (auto simp: persistEdit_def Let_def)
next
  case (Inr imageBytes)
  note d = Inr
  obtain r st1 where u: "uploadToCloudflareImages w imageBytes
         (if mimeType inline = JNull then JStr ''image/png'' else mimeType inline)
         (JObj (editMetadata w ep ids parentId session ar ca)) st = (r, st1)"
    by (cases "uploadToCloudflareImages w imageBytes
         (if mimeType inline = JNull then JStr ''image/png'' else mimeType inline)
         (JObj (editMetadata w ep ids parentId session ar ca)) st")
  note ue = uploadToCloudflareImages_effect[OF u]
  show ?thesis
  proof (cases r)
    case (Inl e)
    then show ?thesis using assms d u ue failed by (auto simp: persistEdit_def Let_def)
  next
    case (Inr p)
    obtain imageId url where p: "p = (imageId, url)" by (cases p)
    have url: "url = deliveryUrl w imageId" using ue Inr p by simp
    note u' = u[unfolded Inr p url]
    show ?thesis
    proof (cases "insertVersion
         (editVersionRow w (randomUUID w n) parentId di ep (deliveryUrl w imageId)
            (editMetadata w ep ids parentId session ar ca) imageId (summarizeParts mps) session ar) st1")
      case (Inl e)
      then show ?thesis using assms d u' ue[unfolded Inr p] failed
        by (auto simp: persistEdit_def Let_def subset_insertI)
    next
      case ins: (Inr st2)
      have "out = Returned (jsonResponse
                (editResponse imageId (randomUUID w n) (deliveryUrl w imageId) (summarizeParts mps)
                   (buildFollowupSuggestion ca (length (summarizeParts mps) > 0))) 200)"
        and "st' = saveHistory (s_id session)
               (trimHistory (msgs @ [\<lparr> role = Some (JStr ''model''), parts = mps \<rparr>]) maxMessages_default) st2"
        using assms d u' ins by (simp_all add: persistEdit_def Let_def)
      then show ?thesis using stored[OF d u' ins] by blast
    qed
  qed
qed

lemma persistEdit_failed:
  assumes "persistEdit w n ep ids parentId session di ar ca msgs mps inline st = (out, st')"
    and "\<not> succeeded out"
  shows "prompt_sessions st' = prompt_sessions st \<and> image_versions st' = image_versions st"
  using assms(1)
proof (cases rule: persistEdit_cases)
  case failed
  then show ?thesis by simp
next
  case (stored imageBytes imageId st1 st2)
  then show ?thesis using assms(2) by simp
qed

text \<open>
  The middle of the edit workflow either fails before the end of the workflow is entered,
  with both tables as they were, or enters it with the model's parts.
\<close>

lemma editWithSession_cases:
  assumes "editWithSession w n body ep ids pv session st = (out, st')"
  obtains (failed) "\<not> succeeded out" "prompt_sessions st' = prompt_sessions st"
      "image_versions st' = image_versions st" "cloudflare_images st' = cloudflare_images st"
      "status (respond out) = 500 \<or> status (respond out) = 502"
    | (answered) images maskParts ps mps part inline where
      "imagePayloads w ids = Inr images"
      "maskPayloads w (case masks body of None \<Rightarrow> [] | Some ms \<Rightarrow> ms) = Inr maskParts"
      "generateImageFromGemini w
         (fst (parseHistory (s_history session)) @ [userTurn ep (images @ maskParts)])
         (buildSystemInstruction w (editDesignIntent pv session) (inferCameraAngle ep (camera_hint body)))
         (editAspectRatio body pv)
       = Inr (Some (JArr ps))"
      "normalizeParts ps = Some mps"
      "find (\<lambda>part. inlineData part \<noteq> None) mps = Some part"
      "inlineData part = Some inline"
      "persistEdit w n ep ids (map_option pv_id pv) session (editDesignIntent pv session)
         (editAspectRatio body pv) (inferCameraAngle ep (camera_hint body))
         (fst (parseHistory (s_history session)) @ [userTurn ep (images @ maskParts)])
         mps inline
         (st \<lparr> console := console st @ snd (parseHistory (s_history session)) \<rparr>)
       = (out, st')"
proof -
  obtain conversation warnings where p: "parseHistory (s_history session) = (conversation, warnings)"
    by (cases "parseHistory (s_history session)")
  define st1 where "st1 = st \<lparr> console := console st @ warnings \<rparr>"
  have st1: "prompt_sessions st1 = prompt_sessions st" "image_versions st1 = image_versions st"
    "cloudflare_images st1 = cloudflare_images st"
    by (simp_all add: st1_def)
  show ?thesis
  proof (cases "imagePayloads w ids")
    case (Inl e)
    then have "out = Threw e" "st' = st1"
      using assms p by (simp_all add: editWithSession_def Let_def st1_def)
    then show ?thesis using failed st1 by simp
  next
    case (Inr images)
    note i = Inr
    show ?thesis
    proof (cases "maskPayloads w (case masks body of None \<Rightarrow> [] | Some ms \<Rightarrow> ms)")
      case (Inl e)
      then have "out = Threw e" "st' = st1"
        using assms p i by (simp_all add: editWithSession_def Let_def st1_def)
      then show ?thesis using failed st1 by simp
    next
      case (Inr maskParts)
      note m = Inr
      define msgs where "msgs = conversation @ [userTurn ep (images @ maskParts)]"
      define reply where "reply = generateImageFromGemini w msgs
         (buildSystemInstruction w (editDesignIntent pv session) (inferCameraAngle ep (camera_hint body)))
         (editAspectRatio body pv)"
      have e: "(case reply of
                 Inl e \<Rightarrow> (Threw e, st1)
               | Inr candidateParts \<Rightarrow>
                   if \<not> hasLength candidateParts
                   then (Returned (jsonResponse (errorBody ''Gemini response did not include image data'') 502), st1)
                   else
                     (case candidateParts of
                        Some (JArr ps) \<Rightarrow>
                          (case normalizeParts ps of
                             None \<Rightarrow> (Threw ''Cannot read properties of null'', st1)
                           | Some modelParts \<Rightarrow>
                               (case find (\<lambda>part. inlineData part \<noteq> None) modelParts of
                                  None \<Rightarrow>
                                    (Returned (jsonResponse (errorBody ''Gemini response missing inline image'') 502), st1)
                                | Some inlineImagePart \<Rightarrow>
                                    (case inlineData inlineImagePart of
                                       None \<Rightarrow>
                                         (Returned (jsonResponse (errorBody ''Gemini response missing inline image'') 502), st1)
                                     | Some inline \<Rightarrow>
                                         persistEdit w n ep ids (map_option pv_id pv) session
                                           (editDesignIntent pv session) (editAspectRatio body pv)
                                           (inferCameraAngle ep (camera_hint body)) msgs modelParts inline st1)))
                      | _ \<Rightarrow> (Threw ''parts.map is not a function'', st1))) = (out, st')"
        using assms p i m unfolding editWithSession_def Let_def st1_def msgs_def reply_def
        by simp
      show ?thesis
      proof (cases reply)
        case (Inl x)
        then have "out = Threw x" "st' = st1" using e by simp_all
        then show ?thesis using failed st1 by simp
      next
        case (Inr candidateParts)
        note r = Inr
        show ?thesis
        proof (cases "hasLength candidateParts")
          case False
          then have "\<not> succeeded out" "st' = st1"
            "status (respond out) = 502" using e r by auto
          then show ?thesis using failed st1 by simp
        next
          case True
          note h = True
          have a: "(\<exists>ps mps part inline. candidateParts = Some (JArr ps) \<and> normalizeParts ps = Some mps
                      \<and> find (\<lambda>part. inlineData part \<noteq> None) mps = Some part
                      \<and> inlineData part = Some inline
                      \<and> persistEdit w n ep ids (map_option pv_id pv) session
                           (editDesignIntent pv session) (editAspectRatio body pv)
                           (inferCameraAngle ep (camera_hint body)) msgs mps inline st1 = (out, st'))
                   \<or> (\<not> succeeded out \<and> st' = st1
                       \<and> (status (respond out) = 500 \<or> status (respond out) = 502))"
            using e r h by (auto split: option.splits json.splits)
          then show ?thesis
          proof
            assume "\<exists>ps mps part inline. candidateParts = Some (JArr ps) \<and> normalizeParts ps = Some mps
                      \<and> find (\<lambda>part. inlineData part \<noteq> None) mps = Some part
                      \<and> inlineData part = Some inline
                      \<and> persistEdit w n ep ids (map_option pv_id pv) session
                           (editDesignIntent pv session) (editAspectRatio body pv)
                           (inferCameraAngle ep (camera_hint body)) msgs mps inline st1 = (out, st')"
            then obtain ps mps part inline where
              c: "candidateParts = Some (JArr ps)" and np: "normalizeParts ps = Some mps"
              and f: "find (\<lambda>part. inlineData part \<noteq> None) mps = Some part"
              and il: "inlineData part = Some inline"
              and pe: "persistEdit w n ep ids (map_option pv_id pv) session
                           (editDesignIntent pv session) (editAspectRatio body pv)
                           (inferCameraAngle ep (camera_hint body)) msgs mps inline st1 = (out, st')"
              by blast
            have g: "generateImageFromGemini w
                       (fst (parseHistory (s_history session)) @ [userTurn ep (images @ maskParts)])
                       (buildSystemInstruction w (editDesignIntent pv session) (inferCameraAngle ep (camera_hint body)))
                       (editAspectRatio body pv) = Inr (Some (JArr ps))"
              using r c by (simp add: reply_def msgs_def p)
            have pe': "persistEdit w n ep ids (map_option pv_id pv) session (editDesignIntent pv session)
                 (editAspectRatio body pv) (inferCameraAngle ep (camera_hint body))
                 (fst (parseHistory (s_history session)) @ [userTurn ep (images @ maskParts)])
                 mps inline
                 (st \<lparr> console := console st @ snd (parseHistory (s_history session)) \<rparr>) = (out, st')"
              using pe by (simp add: msgs_def st1_def p)
            show ?thesis using answered[OF i m g np f il pe'] .
          next
            assume "\<not> succeeded out \<and> st' = st1
                       \<and> (status (respond out) = 500 \<or> status (respond out) = 502)"
            then show ?thesis using failed st1 by simp
          qed
        qed
      qed
    qed
  qed
qed

lemma editWithSession_failed:
  assumes "editWithSession w n body ep ids pv session st = (out, st')"
    and "\<not> succeeded out"
  shows "prompt_sessions st' = prompt_sessions st \<and> image_versions st' = image_versions st"
  using assms(1)
proof (cases rule: editWithSession_cases)
  case failed
  then show ?thesis by simp
next
  case (answered images maskParts ps mps part inline)
  show ?thesis using persistEdit_failed[OF answered(7) assms(2)] by simp
qed

lemma createSession_effect:
  assumes "createSession w n bp st = Inr (s, st')"
  shows "st' = st \<lparr> prompt_sessions := prompt_sessions st @ [s] \<rparr>
         \<and> s_id s \<notin> set (map s_id (prompt_sessions st))
         \<and> s_id s = randomUUID w n
         \<and> s_base_prompt s = bp
         \<and> s_base_prompt_hash s = sha256_hex w bp
         \<and> s_history s = Text_JSON (JArr [])"
  using assms
  by (auto simp: createSession_def insertSession_def Let_def split: if_splits)

lemma resolveSession_precedence:
  "resolveSession w body pv st =
     (case (case pv of None \<Rightarrow> None
            | Some p \<Rightarrow> if truthy (pv_chat_id p) then getSessionById st (the_default [] (pv_chat_id p)) else None) of
        Some s \<Rightarrow> Inr (Some s, 0, st)
      | None \<Rightarrow>
          (case (if truthy (session_id body) then getSessionById st (the_default [] (session_id body)) else None) of
             Some s \<Rightarrow> Inr (Some s, 0, st)
           | None \<Rightarrow>
               if truthy (base_prompt body)
               then (case createSession w 0 (the_default [] (base_prompt body)) st of
                       Inl e \<Rightarrow> Inl e
                     | Inr (s, st') \<Rightarrow> Inr (Some s, 1, st'))
               else Inr (None, 0, st)))"
proof -
  define s1 where "s1 = (case pv of None \<Rightarrow> None
            | Some p \<Rightarrow> if truthy (pv_chat_id p) then getSessionById st (the_default [] (pv_chat_id p)) else None)"
  define s2 where "s2 = (if truthy (session_id body) then getSessionById st (the_default [] (session_id body)) else None)"
  have "resolveSession w body pv st =
          (if (if s1 = None \<and> truthy (session_id body)
               then getSessionById st (the_default [] (session_id body)) else s1) = None
              \<and> truthy (base_prompt body)
           then (case createSession w 0 (the_default [] (base_prompt body)) st of
                   Inl e \<Rightarrow> Inl e
                 | Inr (session, st') \<Rightarrow> Inr (Some session, 1, st'))
           else Inr (if s1 = None \<and> truthy (session_id body)
                     then getSessionById st (the_default [] (session_id body)) else s1, 0, st))"
    unfolding resolveSession_def Let_def s1_def ..
  also have "\<dots> =
     (case s1 of
        Some s \<Rightarrow> Inr (Some s, 0, st)
      | None \<Rightarrow>
          (case s2 of
             Some s \<Rightarrow> Inr (Some s, 0, st)
           | None \<Rightarrow>
               if truthy (base_prompt body)
               then (case createSession w 0 (the_default [] (base_prompt body)) st of
                       Inl e \<Rightarrow> Inl e
                     | Inr (s, st') \<Rightarrow> Inr (Some s, 1, st'))
               else Inr (None, 0, st)))"
  proof (cases s1)
    case (Some s)
    then show ?thesis by simp
  next
    case None
    then show ?thesis by (cases s2) (simp_all add: s2_def split: if_splits)
  qed
  finally show ?thesis unfolding s1_def s2_def .
qed

lemma find_Some_mem: "find P xs = Some x \<Longrightarrow> x \<in> set xs \<and> P x"
  by (induction xs) (auto split: if_splits)

lemma getSessionById_mem:
  "getSessionById st i = Some s \<Longrightarrow> s \<in> set (prompt_sessions st) \<and> s_id s = i"
  unfolding getSessionById_def by (drule find_Some_mem) simp

lemma resolveSession_effect:
  assumes "resolveSession w body pv st = Inr (r, n, st')"
  shows "(st' = st \<and> n = 0 \<and> (\<forall>s. r = Some s \<longrightarrow> s \<in> set (prompt_sessions st)))
         \<or> (\<exists>s. r = Some s \<and> n = 1 \<and> truthy (base_prompt body)
                 \<and> st' = st \<lparr> prompt_sessions := prompt_sessions st @ [s] \<rparr>
                 \<and> s_id s \<notin> set (map s_id (prompt_sessions st))
                 \<and> s_history s = Text_JSON (JArr []))"
proof -
  define s1 where "s1 = (case pv of None \<Rightarrow> None
            | Some p \<Rightarrow> if truthy (pv_chat_id p) then getSessionById st (the_default [] (pv_chat_id p)) else None)"
  define s2 where "s2 = (if truthy (session_id body) then getSessionById st (the_default [] (session_id body)) else None)"
  have m1: "\<And>s. s1 = Some s \<Longrightarrow> s \<in> set (prompt_sessions st)"
    unfolding s1_def by (auto split: option.splits if_splits dest!: getSessionById_mem)
  have m2: "\<And>s. s2 = Some s \<Longrightarrow> s \<in> set (prompt_sessions st)"
    unfolding s2_def by (auto split: option.splits if_splits dest!: getSessionById_mem)
  have e: "resolveSession w body pv st =
     (case s1 of
        Some s \<Rightarrow> Inr (Some s, 0, st)
      | None \<Rightarrow>
          (case s2 of
             Some s \<Rightarrow> Inr (Some s, 0, st)
           | None \<Rightarrow>
               if truthy (base_prompt body)
               then (case createSession w 0 (the_default [] (base_prompt body)) st of
                       Inl e \<Rightarrow> Inl e
                     | Inr (s, st') \<Rightarrow> Inr (Some s, 1, st'))
               else Inr (None, 0, st)))"
    unfolding s1_def s2_def by (rule resolveSession_precedence)
  show ?thesis
  proof (cases s1)
    case (Some s)
    then show ?thesis using assms e m1 by simp
  next
    case None
    note n1 = None
    show ?thesis
    proof (cases s2)
      case (Some s)
      then show ?thesis using assms e n1 m2 by simp
    next
      case None
      show ?thesis
      proof (cases "truthy (base_prompt body)")
        case False
        then show ?thesis using assms e n1 None by simp
      next
        case True
        show ?thesis
        proof (cases "createSession w 0 (the_default [] (base_prompt body)) st")
          case (Inl x)
          then show ?thesis using assms e n1 None True by simp
        next
          case (Inr t)
          obtain s stx where t: "t = (s, stx)" by (cases t)
          have "r = Some s" "n = 1" "st' = stx" using assms e n1 None True Inr t by simp_all
          then show ?thesis using createSession_effect[OF Inr[unfolded t]] True by blast
        qed
      qed
    qed
  qed
qed

lemma handleEdit_cases:
  assumes "handleEdit w request st = (out, st')"
  obtains (rejected) "st' = st" "\<not> succeeded out"
        "status (respond out) = 400 \<or> status (respond out) = 500"
    | (unresolved) body pv n where "request = Some body" "\<not> succeeded out"
        "resolveSession w body pv st = Inr (None, n, st')"
        "out = Returned (jsonResponse (errorBody ''A session or base prompt is required to edit'') 400)"
    | (resolved) body ids pv session n st1 where
        "request = Some body" "image_ids body = Some ids" "ids \<noteq> []" "truthy (edit_prompt body)"
        "pv = (if truthy (previous_version_id body)
               then getVersionById st (the_default [] (previous_version_id body)) else None)"
        "resolveSession w body pv st = Inr (Some session, n, st1)"
        "editWithSession w n body (the_default [] (edit_prompt body)) ids pv session st1 = (out, st')"
proof (cases request)
  case None
  then have "out = Returned (jsonResponse (errorBody ''Invalid JSON body'') 400)" "st' = st"
    using assms by (simp_all add: handleEdit_def)
  then show ?thesis by (intro rejected) simp_all
next
  case (Some body)
  note req = Some
  show ?thesis
  proof (cases "image_ids body")
    case None
    then have "out = Returned (jsonResponse (errorBody ''At least one image_id is required'') 400)" "st' = st"
      using assms req by (simp_all add: handleEdit_def)
    then show ?thesis by (intro rejected) simp_all
  next
    case ids: (Some ids)
    show ?thesis
    proof (cases "ids = []")
      case True
      then have "out = Returned (jsonResponse (errorBody ''At least one image_id is required'') 400)" "st' = st"
        using assms req ids by (simp_all add: handleEdit_def)
      then show ?thesis by (intro rejected) simp_all
    next
      case ne: False
      show ?thesis
      proof (cases "truthy (edit_prompt body)")
        case False
        then have "out = Returned (jsonResponse (errorBody ''edit_prompt is required'') 400)" "st' = st"
          using assms req ids ne by (simp_all add: handleEdit_def)
        then show ?thesis by (intro rejected) simp_all
      next
        case tr: True
        define pv where "pv = (if truthy (previous_version_id body)
               then getVersionById st (the_default [] (previous_version_id body)) else None)"
        have h: "(case resolveSession w body pv st of
                  Inl e \<Rightarrow> (Threw e, st)
                | Inr (None, n, st1) \<Rightarrow>
                    (Returned (jsonResponse (errorBody ''A session or base prompt is required to edit'') 400), st1)
                | Inr (Some session, n, st1) \<Rightarrow>
                    editWithSession w n body (the_default [] (edit_prompt body)) ids pv session st1) = (out, st')"
          using assms req ids ne tr unfolding pv_def
          by (simp add: handleEdit_def Let_def split del: if_split)
        show ?thesis
        proof (cases "resolveSession w body pv st")
          case (Inl e)
          then have "out = Threw e" "st' = st" using h by simp_all
          then show ?thesis by (intro rejected) simp_all
        next
          case (Inr t)
          obtain r n st1 where t: "t = (r, n, st1)" by (cases t)
          show ?thesis
          proof (cases r)
            case None
            then have o: "out = Returned (jsonResponse (errorBody ''A session or base prompt is required to edit'') 400)"
              and s: "st' = st1" using h Inr t by simp_all
            have ns: "\<not> succeeded out" unfolding o by simp
            have rs: "resolveSession w body pv st = Inr (None, n, st')" using Inr t None s by simp
            show ?thesis by (rule unresolved[OF req ns rs o])
          next
            case (Some session)
            then have e: "editWithSession w n body (the_default [] (edit_prompt body)) ids pv session st1 = (out, st')"
              using h Inr t by simp
            have rs: "resolveSession w body pv st = Inr (Some session, n, st1)" using Inr t Some by simp
            show ?thesis by (rule resolved[OF req ids ne tr pv_def rs e])
          qed
        qed
      qed
    qed
  qed
qed

lemma handleEdit_failed:
  assumes "handleEdit w request st = (out, st')" and "\<not> succeeded out"
  shows "image_versions st' = image_versions st
         \<and> (prompt_sessions st' = prompt_sessions st
            \<or> (\<exists>s. prompt_sessions st' = prompt_sessions st @ [s]
                    \<and> s_id s \<notin> set (map s_id (prompt_sessions st))
                    \<and> s_history s = Text_JSON (JArr [])))"
  using assms(1)
proof (cases rule: handleEdit_cases)
  case rejected
  then show ?thesis by simp
next
  case (unresolved body pv n)
  then show ?thesis using resolveSession_effect[OF unresolved(3)] by auto
next
  case (resolved body ids pv session n st1)
  have "prompt_sessions st' = prompt_sessions st1 \<and> image_versions st' = image_versions st1"
    using editWithSession_failed[OF resolved(7) assms(2)] .
  then show ?thesis using resolveSession_effect[OF resolved(6)] by auto
qed

text \<open>An upload is turned away, or fails on the way with no version row, or runs to its end.\<close>

lemma handleUpload_cases:
  assumes "handleUpload w request st = (out, st')"
  obtains (rejected) "st' = st" "status (respond out) = 415 \<or> status (respond out) = 400"
    | (failed) e where "out = Threw e" "image_versions st' = image_versions st"
        "prompt_sessions st' = prompt_sessions st
         \<or> (\<exists>s. prompt_sessions st' = prompt_sessions st @ [s]
                 \<and> s_id s \<notin> set (map s_id (prompt_sessions st))
                 \<and> s_history s = Text_JSON (JArr []))"
        "set (cloudflare_images st) \<subseteq> set (cloudflare_images st')"
    | (stored) fileBytes fileType imageId st1 st2 where
        "str_includes (case u_content_type request of None \<Rightarrow> [] | Some c \<Rightarrow> c) ''multipart/form-data''"
        "u_file request = Some (fileBytes, fileType)"
        "insertSession
           (uploadSession w (randomUUID w 0)
              (case u_design_intent request of
                 None \<Rightarrow> (case u_base_prompt request of None \<Rightarrow> [] | Some b \<Rightarrow> b)
               | Some d \<Rightarrow> d)) st = Inr st1"
        "uploadToCloudflareImages w fileBytes (JStr (if fileType \<noteq> [] then fileType else ''image/png''))
           (JObj (uploadMetadata w (case u_asset_type request of None \<Rightarrow> ''photo'' | Some a \<Rightarrow> a)
                    (sha256_hex w (case u_design_intent request of
                       None \<Rightarrow> (case u_base_prompt request of None \<Rightarrow> [] | Some b \<Rightarrow> b)
                     | Some d \<Rightarrow> d))
                    (u_aspect_ratio request))) st1
         = (Inr (imageId, deliveryUrl w imageId), st2)"
        "insertVersion
           (uploadVersionRow w (randomUUID w 1)
              (case u_design_intent request of
                 None \<Rightarrow> (case u_base_prompt request of None \<Rightarrow> [] | Some b \<Rightarrow> b)
               | Some d \<Rightarrow> d)
              (deliveryUrl w imageId)
              (uploadMetadata w (case u_asset_type request of None \<Rightarrow> ''photo'' | Some a \<Rightarrow> a)
                    (sha256_hex w (case u_design_intent request of
                       None \<Rightarrow> (case u_base_prompt request of None \<Rightarrow> [] | Some b \<Rightarrow> b)
                     | Some d \<Rightarrow> d))
                    (u_aspect_ratio request))
              imageId (randomUUID w 0) (u_aspect_ratio request)) st2 = Inr st'"
        "out = Returned (jsonResponse
                  (uploadResponse imageId (randomUUID w 1) (randomUUID w 0) (deliveryUrl w imageId)) 200)"
proof (cases "str_includes (case u_content_type request of None \<Rightarrow> [] | Some c \<Rightarrow> c) ''multipart/form-data''")
  case False
  then show ?thesis using assms rejected by (auto simp: handleUpload_def Let_def jsonResponse_def)
next
  case ct: True
  show ?thesis
  proof (cases "u_file request")
    case None
    then show ?thesis using assms ct rejected by (auto simp: handleUpload_def Let_def jsonResponse_def)
  next
    case (Some f)
    obtain fileBytes fileType where f: "u_file request = Some (fileBytes, fileType)"
      using Some by (cases f) simp
    define di where "di = (case u_design_intent request of
                 None \<Rightarrow> (case u_base_prompt request of None \<Rightarrow> [] | Some b \<Rightarrow> b)
               | Some d \<Rightarrow> d)"
    define md where "md = uploadMetadata w (case u_asset_type request of None \<Rightarrow> ''photo'' | Some a \<Rightarrow> a)
                    (sha256_hex w di) (u_aspect_ratio request)"
    have e: "(case insertSession (uploadSession w (randomUUID w 0) di) st of
                  Inl e \<Rightarrow> (Threw e, st)
                | Inr st1 \<Rightarrow>
                      (case uploadToCloudflareImages w fileBytes
                              (JStr (if fileType \<noteq> [] then fileType else ''image/png''))
                              (JObj md) st1 of
                         (Inl e, st2) \<Rightarrow> (Threw e, st2)
                       | (Inr (imageId, publicUrl), st2) \<Rightarrow>
                           (case insertVersion
                                   (uploadVersionRow w (randomUUID w 1) di publicUrl md
                                      imageId (randomUUID w 0) (u_aspect_ratio request))
                                   st2 of
                              Inl e \<Rightarrow> (Threw e, st2)
                            | Inr st3 \<Rightarrow>
                                (Returned
                                   (jsonResponse (uploadResponse imageId (randomUUID w 1) (randomUUID w 0) publicUrl) 200),
                                 st3)))) = (out, st')"
      using assms ct f unfolding handleUpload_def Let_def di_def md_def by simp
    show ?thesis
    proof (cases "insertSession (uploadSession w (randomUUID w 0) di) st")
      case (Inl x)
      then have "out = Threw x" "st' = st" using e by simp_all
      then show ?thesis using failed by simp
    next
      case (Inr st1)
      note ins = Inr
      note se = insertSession_effect[OF ins]
      have hs: "s_history (uploadSession w (randomUUID w 0) di) = Text_JSON (JArr [])"
        by (simp add: uploadSession_def stringifyHistory_def)
      obtain r st2 where u: "uploadToCloudflareImages w fileBytes
                              (JStr (if fileType \<noteq> [] then fileType else ''image/png''))
                              (JObj md) st1 = (r, st2)"
        by (cases "uploadToCloudflareImages w fileBytes
                              (JStr (if fileType \<noteq> [] then fileType else ''image/png''))
                              (JObj md) st1")
      note ue = uploadToCloudflareImages_effect[OF u]
      have s2: "prompt_sessions st2 = prompt_sessions st @ [uploadSession w (randomUUID w 0) di]"
        "image_versions st2 = image_versions st"
        "set (cloudflare_images st) \<subseteq> set (cloudflare_images st2)"
        using ue se by (auto split: sum.splits)
      show ?thesis
      proof (cases r)
        case (Inl x)
        then have "out = Threw x" "st' = st2" using e ins u by simp_all
        then show ?thesis using failed[of x] s2 se hs by auto
      next
        case (Inr p)
        obtain imageId url where p: "p = (imageId, url)" by (cases p)
        have url: "url = deliveryUrl w imageId" using ue Inr p by simp
        note u' = u[unfolded Inr p url]
        show ?thesis
        proof (cases "insertVersion
                                   (uploadVersionRow w (randomUUID w 1) di (deliveryUrl w imageId) md
                                      imageId (randomUUID w 0) (u_aspect_ratio request)) st2")
          case (Inl x)
          then have "out = Threw x" "st' = st2" using e ins u' by simp_all
          then show ?thesis using failed[of x] s2 se hs by auto
        next
          case iv: (Inr st3)
          then have o: "out = Returned (jsonResponse
                  (uploadResponse imageId (randomUUID w 1) (randomUUID w 0) (deliveryUrl w imageId)) 200)"
            and "st' = st3" using e ins u' by simp_all
          then show ?thesis
            using stored[OF ct f ins[unfolded di_def] u'[unfolded md_def di_def] _ o] iv
            unfolding md_def di_def by blast
        qed
      qed
    qed
  qed
qed

text \<open>A successful edit has gone through every stage of the workflow.\<close>

lemma handleEdit_succeeded:
  assumes "handleEdit w request st = (out, st')" and "succeeded out"
  obtains body ids pv session n st1 images maskParts ps mps part inline imageBytes imageId st2 st3 where
    "request = Some body"
    "image_ids body = Some ids"
    "pv = (if truthy (previous_version_id body)
           then getVersionById st (the_default [] (previous_version_id body)) else None)"
    "resolveSession w body pv st = Inr (Some session, n, st1)"
    "generateImageFromGemini w
       (fst (parseHistory (s_history session)) @ [userTurn (the_default [] (edit_prompt body)) (images @ maskParts)])
       (buildSystemInstruction w (editDesignIntent pv session)
          (inferCameraAngle (the_default [] (edit_prompt body)) (camera_hint body)))
       (editAspectRatio body pv)
     = Inr (Some (JArr ps))"
    "normalizeParts ps = Some mps"
    "find (\<lambda>part. inlineData part \<noteq> None) mps = Some part"
    "inlineData part = Some inline"
    "uploadToCloudflareImages w imageBytes
       (if mimeType inline = JNull then JStr ''image/png'' else mimeType inline)
       (JObj (editMetadata w (the_default [] (edit_prompt body)) ids (map_option pv_id pv) session
                (editAspectRatio body pv)
                (inferCameraAngle (the_default [] (edit_prompt body)) (camera_hint body))))
       (st1 \<lparr> console := console st1 @ snd (parseHistory (s_history session)) \<rparr>)
     = (Inr (imageId, deliveryUrl w imageId), st2)"
    "insertVersion
       (editVersionRow w (randomUUID w n) (map_option pv_id pv) (editDesignIntent pv session)
          (the_default [] (edit_prompt body)) (deliveryUrl w imageId)
          (editMetadata w (the_default [] (edit_prompt body)) ids (map_option pv_id pv) session
             (editAspectRatio body pv)
             (inferCameraAngle (the_default [] (edit_prompt body)) (camera_hint body)))
          imageId (summarizeParts mps) session (editAspectRatio body pv))
       st2 = Inr st3"
    "out = Returned (jsonResponse
              (editResponse imageId (randomUUID w n) (deliveryUrl w imageId) (summarizeParts mps)
                 (buildFollowupSuggestion
                    (inferCameraAngle (the_default [] (edit_prompt body)) (camera_hint body))
                    (length (summarizeParts mps) > 0))) 200)"
    "st' = saveHistory (s_id session)
             (trimHistory
                (fst (parseHistory (s_history session))
                 @ [userTurn (the_default [] (edit_prompt body)) (images @ maskParts)]
                 @ [\<lparr> role = Some (JStr ''model''), parts = mps \<rparr>]) maxMessages_default) st3"
  using assms(1)
proof (cases rule: handleEdit_cases)
  case rejected
  then show ?thesis using assms(2) by simp
next
  case (unresolved body pv n)
  then show ?thesis using assms(2) by simp
next
  case (resolved body ids pv session n st1)
  from resolved(7) show ?thesis
  proof (cases rule: editWithSession_cases)
    case failed
    then show ?thesis using assms(2) by simp
  next
    case (answered images maskParts ps mps part inline)
    from answered(7) show ?thesis
    proof (cases rule: persistEdit_cases)
      case failed
      then show ?thesis using assms(2) by simp
    next
      case (stored imageBytes imageId st2 st3)
      show ?thesis
        using that[OF resolved(1,2,5,6) answered(3,4,5,6) stored(2,3,4)] stored(5) by simp
    qed
  qed
qed

lemma saveHistory_tables [simp]:
  "image_versions (saveHistory i h st) = image_versions st"
  "cloudflare_images (saveHistory i h st) = cloudflare_images st"
  "map s_id (prompt_sessions (saveHistory i h st)) = map s_id (prompt_sessions st)"
  by (simp_all add: saveHistory_def comp_def)

text \<open>What a successful edit leaves in the tables and in the image store.\<close>

lemma handleEdit_succeeded_tables:
  assumes "handleEdit w request st = (out, st')" and "succeeded out"
  shows "\<exists>v imageId.
           image_versions st' = image_versions st @ [v]
           \<and> v_id v \<notin> set (map v_id (image_versions st))
           \<and> (case v_parent_id v of None \<Rightarrow> True | Some p \<Rightarrow> p \<in> set (map v_id (image_versions st)))
           \<and> artifactOf v = Some (JStr imageId)
           \<and> v_image_url v = deliveryUrl w imageId
           \<and> cloudflare_images st' = cloudflare_images st @ [imageId]
           \<and> (\<exists>b m md. images_post w b m md = Images_stored imageId)"
  using assms
proof (cases rule: handleEdit_succeeded)
  case (1 body ids pv session n st1 images maskParts ps mps part inline imageBytes imageId st2 st3)
  let ?v = "editVersionRow w (randomUUID w n) (map_option pv_id pv) (editDesignIntent pv session)
          (the_default [] (edit_prompt body)) (deliveryUrl w imageId)
          (editMetadata w (the_default [] (edit_prompt body)) ids (map_option pv_id pv) session
             (editAspectRatio body pv)
             (inferCameraAngle (the_default [] (edit_prompt body)) (camera_hint body)))
          imageId (summarizeParts mps) session (editAspectRatio body pv)"
  have r: "image_versions st1 = image_versions st" "cloudflare_images st1 = cloudflare_images st"
    using resolveSession_effect[OF 1(4)] by auto
  note ue = uploadToCloudflareImages_effect[OF 1(9)]
  note ie = insertVersion_effect[OF 1(10)]
  have a: "image_versions st' = image_versions st @ [?v]"
    using 1(12) ie ue r by simp
  have b: "v_id ?v \<notin> set (map v_id (image_versions st))"
    using ie ue r by simp
  have c: "v_parent_id ?v = map_option pv_id pv" by (simp add: editVersionRow_def)
  have d: "case v_parent_id ?v of None \<Rightarrow> True | Some p \<Rightarrow> p \<in> set (map v_id (image_versions st))"
    unfolding c using 1(3)
    by (auto simp: getVersionById_def split: if_splits option.splits dest!: find_Some_mem)
  have e: "artifactOf ?v = Some (JStr imageId)"
    by (simp add: artifactOf_def editVersionRow_def editMetadata_def optField_def optStr_def split: option.splits)
  have f: "v_image_url ?v = deliveryUrl w imageId" by (simp add: editVersionRow_def)
  have g: "cloudflare_images st' = cloudflare_images st @ [imageId]"
    using 1(12) ie ue r by simp
  have h: "\<exists>b m md. images_post w b m md = Images_stored imageId"
    using ue by auto
  show ?thesis
    apply (rule exI[of _ ?v])
    apply (rule exI[of _ imageId])
    apply (intro conjI a b d e f g h)
    done
qed

lemma handleEdit_images_mono:
  assumes "handleEdit w request st = (out, st')"
  shows "set (cloudflare_images st) \<subseteq> set (cloudflare_images st')"
  using assms
proof (cases rule: handleEdit_cases)
  case rejected
  then show ?thesis by simp
next
  case (unresolved body pv n)
  then show ?thesis using resolveSession_effect[OF unresolved(3)] by auto
next
  case (resolved body ids pv session n st1)
  have r: "cloudflare_images st1 = cloudflare_images st"
    using resolveSession_effect[OF resolved(6)] by auto
  from resolved(7) show ?thesis
  proof (cases rule: editWithSession_cases)
    case failed
    then show ?thesis using r by simp
  next
    case (answered images maskParts ps mps part inline)
    from answered(7) show ?thesis
    proof (cases rule: persistEdit_cases)
      case failed
      then show ?thesis using r by simp
    next
      case (stored imageBytes imageId st2 st3)
      show ?thesis
        using stored(5) insertVersion_effect[OF stored(3)] uploadToCloudflareImages_effect[OF stored(2)] r
        by auto
    qed
  qed
qed

lemma endsWith_append: "endsWith (a @ b) b"
  by (simp add: endsWith_def)

lemma artifactStored_deliveryUrl:
  assumes "artifactOf v = Some (JStr imageId)" and "v_image_url v = deliveryUrl w imageId"
    and "imageId \<in> set (cloudflare_images st)"
  shows "artifactStored st v"
proof -
  have "deliveryUrl w imageId = stripTrailingSlash (CF_IMAGES_DELIVERY_URL w) @ (''/'' @ imageId @ ''/public'')"
    by (simp add: deliveryUrl_def)
  then have "endsWith (v_image_url v) (''/'' @ imageId @ ''/public'')"
    using assms(2) endsWith_append by metis
  then show ?thesis using assms(1,3) by (simp add: artifactStored_def)
qed

lemma artifactStored_mono:
  assumes "artifactStored st v" and "set (cloudflare_images st) \<subseteq> set (cloudflare_images st')"
  shows "artifactStored st' v"
  using assms by (auto simp: artifactStored_def split: option.splits json.splits)

text \<open>Every version row of a reachable state refers to a stored image.\<close>

lemma reachable_artifacts:
  "reachable st \<Longrightarrow> \<forall>row \<in> set (image_versions st). artifactStored st row"
proof (induction rule: reachable.induct)
  case (initial st)
  then show ?case by simp
next
  case (upload st w request out st')
  from upload(2) show ?case
  proof (cases rule: handleUpload_cases)
    case rejected
    then show ?thesis using upload.IH by simp
  next
    case (failed e)
    then show ?thesis using upload.IH artifactStored_mono by metis
  next
    case (stored fileBytes fileType imageId st1 st2)
    note se = insertSession_effect[OF stored(3)]
    note ue = uploadToCloudflareImages_effect[OF stored(4)]
    note ie = insertVersion_effect[OF stored(5)]
    let ?v = "uploadVersionRow w (randomUUID w 1)
              (case u_design_intent request of
                 None \<Rightarrow> (case u_base_prompt request of None \<Rightarrow> [] | Some b \<Rightarrow> b)
               | Some d \<Rightarrow> d)
              (deliveryUrl w imageId)
              (uploadMetadata w (case u_asset_type request of None \<Rightarrow> ''photo'' | Some a \<Rightarrow> a)
                    (sha256_hex w (case u_design_intent request of
                       None \<Rightarrow> (case u_base_prompt request of None \<Rightarrow> [] | Some b \<Rightarrow> b)
                     | Some d \<Rightarrow> d))
                    (u_aspect_ratio request))
              imageId (randomUUID w 0) (u_aspect_ratio request)"
    have vs: "image_versions st' = image_versions st @ [?v]" using se ue ie by simp
    have im: "cloudflare_images st' = cloudflare_images st @ [imageId]" using se ue ie by simp
    have a: "artifactOf ?v = Some (JStr imageId)"
      by (simp add: artifactOf_def uploadVersionRow_def uploadMetadata_def optField_def split: option.splits)
    have u: "v_image_url ?v = deliveryUrl w imageId" by (simp add: uploadVersionRow_def)
    have new: "artifactStored st' ?v"
      using artifactStored_deliveryUrl[OF a u] im by simp
    have old: "\<forall>row \<in> set (image_versions st). artifactStored st' row"
      using upload.IH artifactStored_mono[of st _ st'] im by auto
    show ?thesis using vs new old by simp
  qed
next
  case (edit st w body out st')
  note mono = handleEdit_images_mono[OF edit(2)]
  have old: "\<forall>row \<in> set (image_versions st). artifactStored st' row"
    using edit.IH artifactStored_mono[OF _ mono] by blast
  show ?case
  proof (cases "succeeded out")
    case False
    then show ?thesis using handleEdit_failed[OF edit(2)] old by simp
  next
    case True
    from handleEdit_succeeded_tables[OF edit(2) True] obtain v imageId where
      v: "image_versions st' = image_versions st @ [v]" "artifactOf v = Some (JStr imageId)"
         "v_image_url v = deliveryUrl w imageId" "cloudflare_images st' = cloudflare_images st @ [imageId]"
      by blast
    have "artifactStored st' v" using artifactStored_deliveryUrl[OF v(2,3)] v(4) by simp
    then show ?thesis using v(1) old by simp
  qed
qed

section \<open>The example states, computed\<close>

lemmas demo_simps = demoWorld_def emptyState_def uploadRequest_def bareUploadRequest_def editRequest_def
  replyImage_def replyImageText_def replyTextOnly_def imagePart_def

lemmas upload_simps = handleUpload_def Let_def startsWith_def insertSession_def insertVersion_def
  uploadSession_def uploadVersionRow_def uploadMetadata_def uploadResponse_def uploadToCloudflareImages_def
  deliveryUrl_def stripTrailingSlash_def stringifyHistory_def jsonResponse_def optField_def

lemmas edit_simps = handleEdit_def resolveSession_def createSession_def getVersionById_def getSessionById_def
  editWithSession_def editAspectRatio_def editDesignIntent_def userTurn_def persistEdit_def editMetadata_def
  editVersionRow_def editResponse_def parseHistory_def parseMessage_def normalizeParts_def normalizePart_def
  coalesce_def fetchImageAsBase64_def generateImageFromGemini_def decodeBase64_def saveHistory_def
  trimHistory_def maxMessages_default_def summarizeParts_def inlinePart_def optStr_def
  buildSystemInstruction_def buildFollowupSuggestion_def inferCameraAngle_def CAMERA_KEYWORDS_def
  toLowerCase_def toLowerChar_def trim_def isWhiteSpace_def SUPPORTED_ASPECT_RATIOS_def errorBody_def
  encodeMessage_def encodePart_def encodeInline_def

lemma uploadedState_value:
  "uploadedState =
     \<lparr> prompt_sessions =
         [\<lparr> s_id = ''r1-a'', s_base_prompt = ''modern kitchen'', s_system_prompt = ''You edit floor plans.'',
            s_base_prompt_hash = ''sha256 of modern kitchen'', s_history = Text_JSON (JArr []) \<rparr>],
       image_versions =
         [\<lparr> v_id = ''r1-b'', v_parent_id = None, v_base_prompt = Some ''modern kitchen'',
            v_edit_prompt = None, v_model = ''source'', v_created_at = 100,
            v_image_url = ''https://imagedelivery.net/acct/img-1/public'',
            v_metadata =
              JObj [(''asset_type'', JStr ''photo''),
                    (''base_prompt_hash'', JStr ''sha256 of modern kitchen''),
                    (''edit_instruction'', JNull),
                    (''model'', JStr ''source''),
                    (''timestamp'', JStr ''2025-01-01T00:00:00.000Z''),
                    (''synth_id'', JBool True),
                    (''cloudflare_image_id'', JStr ''img-1''),
                    (''session_id'', JStr ''r1-a'')],
            v_chat_id = Some ''r1-a'', v_aspect_ratio = None, v_diff_summary = None \<rparr>],
       cloudflare_images = [''img-1''],
       console = [] \<rparr>"
  by (simp add: uploadedState_def demo_simps upload_simps)

lemma editedState_facts:
  "map v_id (image_versions editedState) = [''r1-b'', ''r2-a'']
   \<and> map v_parent_id (image_versions editedState) = [None, Some ''r1-b'']
   \<and> map (\<lambda>s. historyLength (s_history s)) (prompt_sessions editedState) = [Some 2]
   \<and> map v_diff_summary (image_versions editedState) = [None, Some ''Added a skylight.'']
   \<and> map (\<lambda>v. getProp (v_metadata v) ''angle_id'') (image_versions editedState) = [None, Some (JStr ''patio'')]"
  unfolding editedState_def uploadedState_value
  by (simp add: followUpRequest_def demo_simps edit_simps Let_def startsWith_def insertVersion_def
      uploadToCloudflareImages_def deliveryUrl_def stripTrailingSlash_def stringifyHistory_def
      jsonResponse_def optField_def)

lemmas run_simps = followUpRequest_def editOf_def demo_simps edit_simps Let_def startsWith_def
  insertVersion_def insertSession_def uploadToCloudflareImages_def deliveryUrl_def stripTrailingSlash_def
  stringifyHistory_def jsonResponse_def optField_def

lemma tiedState_rows:
  "map (\<lambda>v. (v_id v, v_created_at v, getProp (v_metadata v) ''angle_id'')) (image_versions tiedState)
     = [(''r1-b'', 100, None), (''r2-a'', 200, Some (JStr ''patio'')), (''r3-a'', 200, Some (JStr ''patio''))]"
  unfolding tiedState_def editedState_def uploadedState_value
  by (simp add: run_simps)

lemma cousinsState_rows:
  "map (\<lambda>v. (v_id v, v_parent_id v, v_created_at v)) (image_versions cousinsState)
     = [(''r1-b'', None, 100), (''r2-a'', Some ''r1-b'', 200), (''r3-a'', Some ''r1-b'', 300),
        (''r4-a'', Some ''r3-a'', 400), (''r5-a'', Some ''r2-a'', 500)]"
  unfolding cousinsState_def editedState_def uploadedState_value
  by (simp add: run_simps)

lemma reachable_run:
  "reachable st \<Longrightarrow> reachable (snd (handleEdit w request st))"
  by (erule reachable.edit) (rule surjective_pairing)

lemma reachable_emptyState: "reachable emptyState"
  by (rule reachable.initial) (simp_all add: emptyState_def)

lemma reachable_uploadedState: "reachable uploadedState"
  unfolding uploadedState_def
  by (rule reachable.upload[OF reachable_emptyState]) (rule surjective_pairing)

lemma reachable_editedState: "reachable editedState"
  unfolding editedState_def by (rule reachable_run[OF reachable_uploadedState])

lemma reachable_tiedState: "reachable tiedState"
  unfolding tiedState_def by (rule reachable_run[OF reachable_editedState])

lemma reachable_cousinsState: "reachable cousinsState"
  unfolding cousinsState_def by (intro reachable_run reachable_editedState)

lemma editedState_rows:
  "map (\<lambda>v. (v_id v, v_created_at v, getProp (v_metadata v) ''angle_id'')) (image_versions editedState)
     = [(''r1-b'', 100, None), (''r2-a'', 200, Some (JStr ''patio''))]"
  unfolding editedState_def uploadedState_value
  by (simp add: run_simps)

lemma tiedState_split:
  obtains r p q where "image_versions tiedState = [r, p, q]"
    "getProp (v_metadata r) ''angle_id'' = None"
    "v_id p = ''r2-a''" "v_created_at p = 200" "getProp (v_metadata p) ''angle_id'' = Some (JStr ''patio'')"
    "v_id q = ''r3-a''" "v_created_at q = 200" "getProp (v_metadata q) ''angle_id'' = Some (JStr ''patio'')"
  using tiedState_rows by (auto simp: map_eq_Cons_conv)

lemma editedState_split:
  obtains r p where "image_versions editedState = [r, p]"
    "getProp (v_metadata r) ''angle_id'' = None"
    "v_id p = ''r2-a''" "v_created_at p = 200" "getProp (v_metadata p) ''angle_id'' = Some (JStr ''patio'')"
  using editedState_rows by (auto simp: map_eq_Cons_conv)

lemma cousinsState_split:
  obtains a b c d e where "image_versions cousinsState = [a, b, c, d, e]"
    "v_id a = ''r1-b''" "v_parent_id a = None" "v_created_at a = 100"
    "v_id b = ''r2-a''" "v_parent_id b = Some ''r1-b''" "v_created_at b = 200"
    "v_id c = ''r3-a''" "v_parent_id c = Some ''r1-b''" "v_created_at c = 300"
    "v_id d = ''r4-a''" "v_parent_id d = Some ''r3-a''" "v_created_at d = 400"
    "v_id e = ''r5-a''" "v_parent_id e = Some ''r2-a''" "v_created_at e = 500"
  using cousinsState_rows by (auto simp: map_eq_Cons_conv)

section \<open>Artifacts are stored before versions are recorded\<close>

text \<open>
  Claim C7. In both workflows a version row is inserted only after Cloudflare Images has
  answered the upload with success: whenever a request adds a row to \<open>image_versions\<close>, the
  image store has answered some upload of this request with the identifier the row refers
  to and holds that image, and otherwise the table is as it was. So in every reachable
  state each version row refers to a stored image.
\<close>

theorem version_only_after_stored_artifact:
  "(handleUpload w request st = (out, st') \<longrightarrow>
      image_versions st' = image_versions st
      \<or> (\<exists>v imageId. image_versions st' = image_versions st @ [v]
             \<and> artifactOf v = Some (JStr imageId)
             \<and> (\<exists>b m md. images_post w b m md = Images_stored imageId)
             \<and> cloudflare_images st' = cloudflare_images st @ [imageId]))
   \<and> (handleEdit w body st = (out, st') \<longrightarrow>
      image_versions st' = image_versions st
      \<or> (\<exists>v imageId. image_versions st' = image_versions st @ [v]
             \<and> artifactOf v = Some (JStr imageId)
             \<and> (\<exists>b m md. images_post w b m md = Images_stored imageId)
             \<and> cloudflare_images st' = cloudflare_images st @ [imageId]))
   \<and> (reachable st \<longrightarrow> (\<forall>row \<in> set (image_versions st). artifactStored st row))"
proof (intro conjI impI)
  assume u: "handleUpload w request st = (out, st')"
  from u show "image_versions st' = image_versions st
      \<or> (\<exists>v imageId. image_versions st' = image_versions st @ [v]
             \<and> artifactOf v = Some (JStr imageId)
             \<and> (\<exists>b m md. images_post w b m md = Images_stored imageId)
             \<and> cloudflare_images st' = cloudflare_images st @ [imageId])"
  proof (cases rule: handleUpload_cases)
    case rejected
    then show ?thesis by simp
  next
    case (failed e)
    then show ?thesis by simp
  next
    case (stored fileBytes fileType imageId st1 st2)
    note se = insertSession_effect[OF stored(3)]
    note ue = uploadToCloudflareImages_effect[OF stored(4)]
    note ie = insertVersion_effect[OF stored(5)]
    let ?v = "uploadVersionRow w (randomUUID w 1)
              (case u_design_intent request of
                 None \<Rightarrow> (case u_base_prompt request of None \<Rightarrow> [] | Some b \<Rightarrow> b)
               | Some d \<Rightarrow> d)
              (deliveryUrl w imageId)
              (uploadMetadata w (case u_asset_type request of None \<Rightarrow> ''photo'' | Some a \<Rightarrow> a)
                    (sha256_hex w (case u_design_intent request of
                       None \<Rightarrow> (case u_base_prompt request of None \<Rightarrow> [] | Some b \<Rightarrow> b)
                     | Some d \<Rightarrow> d))
                    (u_aspect_ratio request))
              imageId (randomUUID w 0) (u_aspect_ratio request)"
    have vs: "image_versions st' = image_versions st @ [?v]" using se ue ie by simp
    have im: "cloudflare_images st' = cloudflare_images st @ [imageId]" using se ue ie by simp
    have a: "artifactOf ?v = Some (JStr imageId)"
      by (simp add: artifactOf_def uploadVersionRow_def uploadMetadata_def optField_def split: option.splits)
    have p: "\<exists>b m md. images_post w b m md = Images_stored imageId" using ue by auto
    have "\<exists>v imageId. image_versions st' = image_versions st @ [v]
             \<and> artifactOf v = Some (JStr imageId)
             \<and> (\<exists>b m md. images_post w b m md = Images_stored imageId)
             \<and> cloudflare_images st' = cloudflare_images st @ [imageId]"
      apply (rule exI[of _ ?v])
      apply (rule exI[of _ imageId])
      apply (intro conjI vs a p im)
      done
    then show ?thesis ..
  qed
next
  assume e: "handleEdit w body st = (out, st')"
  show "image_versions st' = image_versions st
      \<or> (\<exists>v imageId. image_versions st' = image_versions st @ [v]
             \<and> artifactOf v = Some (JStr imageId)
             \<and> (\<exists>b m md. images_post w b m md = Images_stored imageId)
             \<and> cloudflare_images st' = cloudflare_images st @ [imageId])"
  proof (cases "succeeded out")
    case False
    then show ?thesis using handleEdit_failed[OF e] by simp
  next
    case True
    from handleEdit_succeeded_tables[OF e True] show ?thesis by blast
  qed
next
  assume "reachable st"
  then show "\<forall>row \<in> set (image_versions st). artifactStored st row"
    by (rule reachable_artifacts)
qed

lemma uploadedState_versions:
  "map v_id (image_versions uploadedState) = [''r1-b'']
   \<and> map artifactOf (image_versions uploadedState) = [Some (JStr ''img-1'')]
   \<and> cloudflare_images uploadedState = [''img-1'']"
  by (simp add: uploadedState_def demo_simps upload_simps artifactOf_def)

text \<open>
  The theorem at a request whose upload Cloudflare Images rejects, and at the state an
  accepted upload leaves.
\<close>

theorem version_only_after_stored_artifact_witness:
  "image_versions (snd (handleEdit (demoWorld ''r2'' 200 replyImage Images_rejected) (Some editRequest) emptyState))
     = image_versions emptyState
   \<and> image_versions (snd (handleUpload (demoWorld ''r1'' 100 replyImage Images_rejected) uploadRequest emptyState))
     = image_versions emptyState
   \<and> reachable uploadedState
   \<and> image_versions uploadedState \<noteq> []
   \<and> list_all (artifactStored uploadedState) (image_versions uploadedState)"
proof (intro conjI)
  let ?w = "demoWorld ''r2'' 200 replyImage Images_rejected"
  have n: "\<And>b m md i. images_post ?w b m md \<noteq> Images_stored i"
    by (simp add: demoWorld_def)
  have "handleEdit ?w (Some editRequest) emptyState
          = (fst (handleEdit ?w (Some editRequest) emptyState), snd (handleEdit ?w (Some editRequest) emptyState))"
    by simp
  from version_only_after_stored_artifact[THEN conjunct2, THEN conjunct1, rule_format, OF this]
  show "image_versions (snd (handleEdit ?w (Some editRequest) emptyState)) = image_versions emptyState"
    using n by blast
next
  let ?w = "demoWorld ''r1'' 100 replyImage Images_rejected"
  have n: "\<And>b m md i. images_post ?w b m md \<noteq> Images_stored i"
    by (simp add: demoWorld_def)
  have "handleUpload ?w uploadRequest emptyState
          = (fst (handleUpload ?w uploadRequest emptyState), snd (handleUpload ?w uploadRequest emptyState))"
    by simp
  from version_only_after_stored_artifact[THEN conjunct1, rule_format, OF this]
  show "image_versions (snd (handleUpload ?w uploadRequest emptyState)) = image_versions emptyState"
    using n by blast
next
  show "reachable uploadedState" by (rule reachable_uploadedState)
next
  show "image_versions uploadedState \<noteq> []" using uploadedState_versions by auto
next
  show "list_all (artifactStored uploadedState) (image_versions uploadedState)"
    using version_only_after_stored_artifact[THEN conjunct2, THEN conjunct2, rule_format, OF reachable_uploadedState]
    by (simp add: list_all_iff)
qed

section \<open>The bounded history\<close>

lemma trimHistory_drop: "trimHistory h cap = drop (length h - cap) h"
  by (simp add: trimHistory_def)

lemma trimHistory_length: "length (trimHistory h cap) \<le> cap"
  by (simp add: trimHistory_def)

lemma trimHistory_again: "trimHistory (trimHistory h cap @ t) cap = trimHistory (h @ t) cap"
proof (cases "length h \<le> cap")
  case True
  then show ?thesis by (simp add: trimHistory_def)
next
  case False
  then have "length h + length t - (length h - cap + cap) + (length h - cap) = length h + length t - cap"
    by arith
  then show ?thesis by (simp add: trimHistory_drop)
qed

lemma trimHistory_foldl:
  "foldl (\<lambda>h turns. trimHistory (h @ turns) cap) (trimHistory history cap) appended
     = trimHistory (history @ concat appended) cap"
proof (induction appended arbitrary: history)
  case Nil
  then show ?case by simp
next
  case (Cons t ts)
  have "foldl (\<lambda>h turns. trimHistory (h @ turns) cap) (trimHistory history cap) (t # ts)
          = foldl (\<lambda>h turns. trimHistory (h @ turns) cap) (trimHistory (history @ t) cap) ts"
    by (simp add: trimHistory_again)
  also have "\<dots> = trimHistory ((history @ t) @ concat ts) cap" by (rule Cons.IH)
  finally show ?case by simp
qed

lemma historyLength_stringify [simp]: "historyLength (stringifyHistory h) = Some (length h)"
  by (simp add: stringifyHistory_def)

lemma saveHistory_bounded:
  assumes "\<forall>s \<in> set (prompt_sessions st). \<exists>n. historyLength (s_history s) = Some n \<and> n \<le> maxMessages_default"
  shows "\<forall>s \<in> set (prompt_sessions (saveHistory i (trimHistory h maxMessages_default) st)).
           \<exists>n. historyLength (s_history s) = Some n \<and> n \<le> maxMessages_default"
  using assms by (auto simp: saveHistory_def trimHistory_length)

lemma reachable_history_bounded:
  "reachable st \<Longrightarrow>
     \<forall>s \<in> set (prompt_sessions st). \<exists>n. historyLength (s_history s) = Some n \<and> n \<le> maxMessages_default"
proof (induction rule: reachable.induct)
  case (initial st)
  then show ?case by simp
next
  case (upload st w request out st')
  from upload(2) show ?case
  proof (cases rule: handleUpload_cases)
    case rejected
    then show ?thesis using upload.IH by simp
  next
    case (failed e)
    then show ?thesis using upload.IH by auto
  next
    case (stored fileBytes fileType imageId st1 st2)
    note se = insertSession_effect[OF stored(3)]
    note ue = uploadToCloudflareImages_effect[OF stored(4)]
    note ie = insertVersion_effect[OF stored(5)]
    show ?thesis using se ue ie upload.IH by (auto simp: uploadSession_def)
  qed
next
  case (edit st w body out st')
  show ?case
  proof (cases "succeeded out")
    case False
    then show ?thesis using handleEdit_failed[OF edit(2)] edit.IH by auto
  next
    case True
    from edit(2) True show ?thesis
    proof (cases rule: handleEdit_succeeded)
      case (1 body ids pv session n st1 images maskParts ps mps part inline imageBytes imageId st2 st3)
      have "\<forall>s \<in> set (prompt_sessions st1). \<exists>n. historyLength (s_history s) = Some n \<and> n \<le> maxMessages_default"
        using resolveSession_effect[OF 1(4)] edit.IH by auto
      then have "\<forall>s \<in> set (prompt_sessions st3). \<exists>n. historyLength (s_history s) = Some n \<and> n \<le> maxMessages_default"
        using uploadToCloudflareImages_effect[OF 1(9)] insertVersion_effect[OF 1(10)] by simp
      then show ?thesis unfolding 1(12) by (rule saveHistory_bounded)
    qed
  qed
qed

lemma find_map_update:
  assumes "find (\<lambda>row. s_id row = i) rows = Some s"
  shows "find (\<lambda>row. s_id row = i) (map (\<lambda>row. if s_id row = i then row \<lparr> s_history := h \<rparr> else row) rows)
           = Some (s \<lparr> s_history := h \<rparr>)"
  using assms by (induction rows) (auto split: if_splits)

lemma getSessionById_saveHistory:
  assumes "getSessionById st i = Some s"
  shows "getSessionById (saveHistory i h st) i = Some (s \<lparr> s_history := stringifyHistory h \<rparr>)"
  using assms by (simp add: getSessionById_def saveHistory_def find_map_update)

lemma find_append_fresh:
  assumes "i \<notin> set (map s_id rows)" and "s_id s = i"
  shows "find (\<lambda>row. s_id row = i) (rows @ [s]) = Some s"
  using assms by (induction rows) auto

lemma getSessionById_self:
  "getSessionById st i = Some s \<Longrightarrow> getSessionById st (s_id s) = Some s"
  by (frule getSessionById_mem) simp

lemma resolveSession_lookup:
  assumes "resolveSession w body pv st = Inr (Some session, n, st1)"
  shows "getSessionById st1 (s_id session) = Some session"
proof -
  define s1 where "s1 = (case pv of None \<Rightarrow> None
            | Some p \<Rightarrow> if truthy (pv_chat_id p) then getSessionById st (the_default [] (pv_chat_id p)) else None)"
  define s2 where "s2 = (if truthy (session_id body) then getSessionById st (the_default [] (session_id body)) else None)"
  have m1: "\<And>s. s1 = Some s \<Longrightarrow> getSessionById st (s_id s) = Some s"
    unfolding s1_def by (auto split: option.splits if_splits intro: getSessionById_self)
  have m2: "\<And>s. s2 = Some s \<Longrightarrow> getSessionById st (s_id s) = Some s"
    unfolding s2_def by (auto split: option.splits if_splits intro: getSessionById_self)
  note e = resolveSession_precedence[of w body pv st, folded s1_def s2_def]
  show ?thesis
  proof (cases s1)
    case (Some s)
    then show ?thesis using assms e m1 by simp
  next
    case None
    note n1 = None
    show ?thesis
    proof (cases s2)
      case (Some s)
      then show ?thesis using assms e n1 m2 by simp
    next
      case None
      show ?thesis
      proof (cases "truthy (base_prompt body)")
        case False
        then show ?thesis using assms e n1 None by simp
      next
        case True
        show ?thesis
        proof (cases "createSession w 0 (the_default [] (base_prompt body)) st")
          case (Inl x)
          then show ?thesis using assms e n1 None True by simp
        next
          case (Inr t)
          obtain s stx where t: "t = (s, stx)" by (cases t)
          have r: "session = s" "st1 = stx" using assms e n1 None True Inr t by simp_all
          note ce = createSession_effect[OF Inr[unfolded t]]
          show ?thesis unfolding r getSessionById_def using ce find_append_fresh[of "s_id s" "prompt_sessions st" s]
            by auto
        qed
      qed
    qed
  qed
qed

subsection \<open>What is stored is read back\<close>

lemma those_map_id: "(\<forall>x \<in> set xs. f x = Some x) \<Longrightarrow> those (map f xs) = Some xs"
  by (induction xs) auto

lemma those_map_comp: "(\<forall>x \<in> set xs. f (g x) = Some x) \<Longrightarrow> those (map f (map g xs)) = Some xs"
  by (induction xs) auto

lemma those_map_Some:
  "those (map f xs) = Some ys \<Longrightarrow> y \<in> set ys \<Longrightarrow> \<exists>x \<in> set xs. f x = Some y"
proof (induction xs arbitrary: ys)
  case Nil
  then show ?case by simp
next
  case (Cons a xs)
  then obtain b bs where b: "f a = Some b" "those (map f xs) = Some bs" "ys = b # bs"
    by (auto split: option.splits)
  show ?case
  proof (cases "y = b")
    case True
    then show ?thesis using b(1) by simp
  next
    case False
    then have "y \<in> set bs" using Cons.prems(2) b(3) by simp
    then show ?thesis using Cons.IH[OF b(2)] by auto
  qed
qed

text \<open>A part that \<open>normalizeParts\<close> made, written by \<open>JSON.stringify\<close>, normalizes to itself.\<close>

lemma normalizePart_mime:
  assumes "normalizePart j = Some p" and "inlineData p = Some i"
  shows "mimeType i \<noteq> JNull"
  using assms
  by (auto simp: normalizePart_def Let_def split: if_splits option.splits)

lemma nullish_Some: "nullish (Some j) \<longleftrightarrow> j = JNull"
  by (cases j) simp_all

lemma normalizePart_encodePart:
  assumes "\<forall>i. inlineData p = Some i \<longrightarrow> mimeType i \<noteq> JNull"
  shows "normalizePart (encodePart p) = Some p"
proof -
  have t: "(case getProp (encodePart p) ''text'' of Some (JStr s) \<Rightarrow> Some s | _ \<Rightarrow> None) = ptext p"
    by (cases "ptext p") (simp_all add: encodePart_def split: option.splits)
  have h: "getProp (encodePart p) ''thought'' = thought p"
    by (cases "ptext p"; cases "inlineData p"; cases "thought p") (simp_all add: encodePart_def)
  have i: "(case coalesce (getProp (encodePart p) ''inlineData'') (getProp (encodePart p) ''inline_data'') of
              None \<Rightarrow> None
            | Some i \<Rightarrow>
                if js_truthy (Some i)
                then Some \<lparr> mimeType =
                             (case coalesce (getProp i ''mimeType'') (getProp i ''mime_type'') of
                                None \<Rightarrow> JStr ''image/png''
                              | Some m \<Rightarrow> if m = JNull then JStr ''image/png'' else m),
                           data = getProp i ''data'' \<rparr>
                else None) = inlineData p"
  proof (cases "inlineData p")
    case None
    then show ?thesis
      by (cases "ptext p"; cases "thought p") (simp_all add: encodePart_def coalesce_def)
  next
    case (Some d)
    then have m: "mimeType d \<noteq> JNull" using assms by simp
    have g: "getProp (encodePart p) ''inlineData'' = Some (encodeInline d)"
      using Some by (cases "ptext p"; cases "thought p") (simp_all add: encodePart_def)
    have c: "coalesce (getProp (encodePart p) ''inlineData'') (getProp (encodePart p) ''inline_data'')
               = Some (encodeInline d)"
      unfolding g by (simp add: coalesce_def encodeInline_def)
    have mm: "coalesce (getProp (encodeInline d) ''mimeType'') (getProp (encodeInline d) ''mime_type'')
               = Some (mimeType d)"
      using m by (simp add: coalesce_def encodeInline_def nullish_Some)
    have dd: "getProp (encodeInline d) ''data'' = data d"
      by (cases "data d") (simp_all add: encodeInline_def)
    have tr: "js_truthy (Some (encodeInline d))" by (simp add: encodeInline_def)
    show ?thesis unfolding c Some using m by (simp add: mm dd tr)
  qed
  have n: "encodePart p \<noteq> JNull" by (simp add: encodePart_def)
  show ?thesis
    unfolding normalizePart_def Let_def using n by (simp add: t h i)
qed

lemma parseMessage_encodeMessage:
  assumes "\<forall>p \<in> set (parts m). \<forall>i. inlineData p = Some i \<longrightarrow> mimeType i \<noteq> JNull"
  shows "parseMessage (encodeMessage m) = Some m"
proof -
  have g: "getProp (encodeMessage m) ''parts'' = Some (JArr (map encodePart (parts m)))"
    by (cases "role m") (simp_all add: encodeMessage_def)
  have r: "getProp (encodeMessage m) ''role'' = role m"
    by (cases "role m") (simp_all add: encodeMessage_def)
  have "normalizeParts (map encodePart (parts m)) = Some (parts m)"
    unfolding normalizeParts_def using assms by (intro those_map_comp) (simp add: normalizePart_encodePart)
  moreover have "encodeMessage m \<noteq> JNull" by (simp add: encodeMessage_def)
  ultimately show ?thesis
    by (simp add: parseMessage_def g r)
qed

lemma parseHistory_stringifyHistory:
  assumes "\<forall>m \<in> set msgs. parseMessage (encodeMessage m) = Some m"
  shows "parseHistory (stringifyHistory msgs) = (msgs, [])"
  using those_map_comp[of msgs parseMessage encodeMessage] assms
  by (simp add: parseHistory_def stringifyHistory_def)

text \<open>The turns of an edit: the parts of the user turn and of the model turn are read back as stored.\<close>

lemma imagePayloads_parts:
  "imagePayloads w ids = Inr images
     \<Longrightarrow> \<forall>p \<in> set images. \<forall>i. inlineData p = Some i \<longrightarrow> mimeType i \<noteq> JNull"
  by (induction ids arbitrary: images) (auto simp: inlinePart_def split: sum.splits prod.splits)

lemma maskPayloads_parts:
  "maskPayloads w ms = Inr maskParts
     \<Longrightarrow> \<forall>p \<in> set maskParts. \<forall>i. inlineData p = Some i \<longrightarrow> mimeType i \<noteq> JNull"
  by (induction ms arbitrary: maskParts)
     (auto simp: inlinePart_def split: sum.splits prod.splits if_splits)

lemma userTurn_read_back:
  assumes "imagePayloads w ids = Inr images" and "maskPayloads w ms = Inr maskParts"
  shows "parseMessage (encodeMessage (userTurn ep (images @ maskParts))) = Some (userTurn ep (images @ maskParts))"
proof (rule parseMessage_encodeMessage, intro ballI allI impI)
  fix p i assume p: "p \<in> set (parts (userTurn ep (images @ maskParts)))" and i: "inlineData p = Some i"
  then have "p \<in> set images \<union> set maskParts" by (auto simp: userTurn_def)
  then show "mimeType i \<noteq> JNull"
    using imagePayloads_parts[OF assms(1)] maskPayloads_parts[OF assms(2)] i by blast
qed

lemma modelTurn_read_back:
  assumes "normalizeParts ps = Some mps"
  shows "parseMessage (encodeMessage \<lparr> role = Some (JStr ''model''), parts = mps \<rparr>)
           = Some \<lparr> role = Some (JStr ''model''), parts = mps \<rparr>"
proof (rule parseMessage_encodeMessage, intro ballI allI impI)
  fix p i assume p: "p \<in> set (parts \<lparr> role = Some (JStr ''model''), parts = mps \<rparr>)" and i: "inlineData p = Some i"
  then have "p \<in> set mps" by simp
  then obtain j where "normalizePart j = Some p"
    using those_map_Some[OF assms[unfolded normalizeParts_def]] by blast
  then show "mimeType i \<noteq> JNull" using i by (rule normalizePart_mime)
qed

lemma handleEdit_succeeded_turns:
  assumes "handleEdit w request st = (out, st')" and "succeeded out"
  obtains body ids pv session n st1 images maskParts ps mps st3 where
    "request = Some body"
    "image_ids body = Some ids"
    "pv = (if truthy (previous_version_id body)
           then getVersionById st (the_default [] (previous_version_id body)) else None)"
    "resolveSession w body pv st = Inr (Some session, n, st1)"
    "imagePayloads w ids = Inr images"
    "maskPayloads w (case masks body of None \<Rightarrow> [] | Some ms \<Rightarrow> ms) = Inr maskParts"
    "generateImageFromGemini w
       (fst (parseHistory (s_history session)) @ [userTurn (the_default [] (edit_prompt body)) (images @ maskParts)])
       (buildSystemInstruction w (editDesignIntent pv session)
          (inferCameraAngle (the_default [] (edit_prompt body)) (camera_hint body)))
       (editAspectRatio body pv)
     = Inr (Some (JArr ps))"
    "normalizeParts ps = Some mps"
    "prompt_sessions st3 = prompt_sessions st1"
    "st' = saveHistory (s_id session)
             (trimHistory
                (fst (parseHistory (s_history session))
                 @ [userTurn (the_default [] (edit_prompt body)) (images @ maskParts),
                    \<lparr> role = Some (JStr ''model''), parts = mps \<rparr>]) maxMessages_default) st3"
  using assms(1)
proof (cases rule: handleEdit_cases)
  case rejected
  then show ?thesis using assms(2) by simp
next
  case (unresolved body pv n)
  then show ?thesis using assms(2) by simp
next
  case (resolved body ids pv session n st1)
  from resolved(7) show ?thesis
  proof (cases rule: editWithSession_cases)
    case failed
    then show ?thesis using assms(2) by simp
  next
    case (answered images maskParts ps mps part inline)
    from answered(7) show ?thesis
    proof (cases rule: persistEdit_cases)
      case failed
      then show ?thesis using assms(2) by simp
    next
      case (stored imageBytes imageId st2 st3)
      have p: "prompt_sessions st3 = prompt_sessions st1"
        using uploadToCloudflareImages_effect[OF stored(2)] insertVersion_effect[OF stored(3)] by simp
      show ?thesis
        using that[OF resolved(1,2,5,6) answered(1,2,3,4) p] stored(5) by simp
    qed
  qed
qed

lemma trimHistory_map: "map f (trimHistory h cap) = trimHistory (map f h) cap"
  by (simp add: trimHistory_def drop_map)

lemma trimHistory_set: "set (trimHistory h cap) \<subseteq> set h"
  by (simp add: trimHistory_def set_drop_subset)

text \<open>
  In every state the worker can reach, the history of every session is a turn sequence of
  at most 20 turns as \<open>JSON.stringify\<close> wrote it, and each of its turns is read back as it was
  stored.
\<close>

lemma saveHistory_stored:
  assumes "\<forall>s \<in> set (prompt_sessions st).
             \<exists>msgs. s_history s = stringifyHistory msgs
               \<and> (\<forall>m \<in> set msgs. parseMessage (encodeMessage m) = Some m)
               \<and> length msgs \<le> maxMessages_default"
    and "\<forall>m \<in> set h. parseMessage (encodeMessage m) = Some m"
  shows "\<forall>s \<in> set (prompt_sessions (saveHistory i (trimHistory h maxMessages_default) st)).
             \<exists>msgs. s_history s = stringifyHistory msgs
               \<and> (\<forall>m \<in> set msgs. parseMessage (encodeMessage m) = Some m)
               \<and> length msgs \<le> maxMessages_default"
proof
  fix s assume "s \<in> set (prompt_sessions (saveHistory i (trimHistory h maxMessages_default) st))"
  then obtain row where row: "row \<in> set (prompt_sessions st)"
    "s = (if s_id row = i then row \<lparr> s_history := stringifyHistory (trimHistory h maxMessages_default) \<rparr> else row)"
    by (auto simp: saveHistory_def)
  show "\<exists>msgs. s_history s = stringifyHistory msgs
               \<and> (\<forall>m \<in> set msgs. parseMessage (encodeMessage m) = Some m)
               \<and> length msgs \<le> maxMessages_default"
  proof (cases "s_id row = i")
    case True
    have "\<forall>m \<in> set (trimHistory h maxMessages_default). parseMessage (encodeMessage m) = Some m"
      using assms(2) trimHistory_set[of h maxMessages_default] by blast
    then show ?thesis using True row(2) trimHistory_length[of h maxMessages_default] by auto
  next
    case False
    then show ?thesis using row assms(1) by simp
  qed
qed

lemma reachable_stored:
  "reachable st \<Longrightarrow>
     \<forall>s \<in> set (prompt_sessions st).
        \<exists>msgs. s_history s = stringifyHistory msgs
          \<and> (\<forall>m \<in> set msgs. parseMessage (encodeMessage m) = Some m)
          \<and> length msgs \<le> maxMessages_default"
proof (induction rule: reachable.induct)
  case (initial st)
  then show ?case by simp
next
  case (upload st w request out st')
  have empty: "\<exists>msgs. Text_JSON (JArr []) = stringifyHistory msgs
          \<and> (\<forall>m \<in> set msgs. parseMessage (encodeMessage m) = Some m)
          \<and> length msgs \<le> maxMessages_default"
    by (rule exI[of _ "[]"]) (simp add: stringifyHistory_def)
  from upload(2) show ?case
  proof (cases rule: handleUpload_cases)
    case rejected
    then show ?thesis using upload.IH by simp
  next
    case (failed e)
    then show ?thesis using upload.IH empty by auto
  next
    case (stored fileBytes fileType imageId st1 st2)
    note se = insertSession_effect[OF stored(3)]
    note ue = uploadToCloudflareImages_effect[OF stored(4)]
    note ie = insertVersion_effect[OF stored(5)]
    show ?thesis using se ue ie upload.IH empty by (auto simp: uploadSession_def stringifyHistory_def)
  qed
next
  case (edit st w body out st')
  have empty: "\<exists>msgs. Text_JSON (JArr []) = stringifyHistory msgs
          \<and> (\<forall>m \<in> set msgs. parseMessage (encodeMessage m) = Some m)
          \<and> length msgs \<le> maxMessages_default"
    by (rule exI[of _ "[]"]) (simp add: stringifyHistory_def)
  show ?case
  proof (cases "succeeded out")
    case False
    then show ?thesis using handleEdit_failed[OF edit(2)] edit.IH empty by auto
  next
    case True
    from edit(2) True show ?thesis
    proof (cases rule: handleEdit_succeeded_turns)
      case (1 body ids pv session n st1 images maskParts ps mps st3)
      have inv1: "\<forall>s \<in> set (prompt_sessions st1).
        \<exists>msgs. s_history s = stringifyHistory msgs
          \<and> (\<forall>m \<in> set msgs. parseMessage (encodeMessage m) = Some m)
          \<and> length msgs \<le> maxMessages_default"
        using resolveSession_effect[OF 1(4)] edit.IH empty by auto
      have "session \<in> set (prompt_sessions st1)"
        using resolveSession_lookup[OF 1(4)] by (rule getSessionById_mem[THEN conjunct1])
      then obtain msgs where m: "s_history session = stringifyHistory msgs"
        "\<forall>m \<in> set msgs. parseMessage (encodeMessage m) = Some m"
        using inv1 by blast
      have p: "parseHistory (s_history session) = (msgs, [])"
        unfolding m(1) by (rule parseHistory_stringifyHistory[OF m(2)])
      have all: "\<forall>m \<in> set (msgs @ [userTurn (the_default [] (edit_prompt body)) (images @ maskParts),
                    \<lparr> role = Some (JStr ''model''), parts = mps \<rparr>]).
                   parseMessage (encodeMessage m) = Some m"
        using m(2) userTurn_read_back[OF 1(5,6)] modelTurn_read_back[OF 1(8)] by simp
      have inv3: "\<forall>s \<in> set (prompt_sessions st3).
        \<exists>msgs. s_history s = stringifyHistory msgs
          \<and> (\<forall>m \<in> set msgs. parseMessage (encodeMessage m) = Some m)
          \<and> length msgs \<le> maxMessages_default"
        using inv1 1(9) by simp
      show ?thesis unfolding 1(10) p fst_conv by (rule saveHistory_stored[OF inv3 all])
    qed
  qed
qed

text \<open>
  A successful edit in a state the worker can reach: the session it resolved holds a JSON
  array of turns, and afterwards it holds the last 20 of that array followed by the user
  turn and the model turn of this request; every other session stays as it was.
\<close>

lemma edit_appends_turns:
  assumes "reachable st" and "handleEdit w request st = (out, st')" and "succeeded out"
    and "request = Some body" and "image_ids body = Some ids"
    and "pv = (if truthy (previous_version_id body)
               then getVersionById st (the_default [] (previous_version_id body)) else None)"
    and "resolveSession w body pv st = Inr (Some session, n, st1)"
    and "imagePayloads w ids = Inr images"
    and "maskPayloads w (case masks body of None \<Rightarrow> [] | Some ms \<Rightarrow> ms) = Inr maskParts"
    and "generateContent w (case GEMINI_MODEL w of None \<Rightarrow> DEFAULT_MODEL | Some m \<Rightarrow> m)
           (fst (parseHistory (s_history session))
              @ [userTurn (the_default [] (edit_prompt body)) (images @ maskParts)])
           (buildSystemInstruction w (editDesignIntent pv session)
              (inferCameraAngle (the_default [] (edit_prompt body)) (camera_hint body)))
           (editAspectRatio body pv)
         = Inr (Some (JArr ps))"
    and "normalizeParts ps = Some mps"
  shows "\<exists>old. s_history session = Text_JSON (JArr old)
           \<and> length old \<le> 20
           \<and> (getSessionById st (s_id session) = Some session
               \<or> (s_id session \<notin> set (map s_id (prompt_sessions st)) \<and> old = []))
           \<and> getSessionById st' (s_id session)
               = Some (session \<lparr> s_history :=
                         Text_JSON (JArr (trimHistory
                           (old @ [encodeMessage (userTurn (the_default [] (edit_prompt body)) (images @ maskParts)),
                                   encodeMessage \<lparr> role = Some (JStr ''model''), parts = mps \<rparr>])
                           20)) \<rparr>)
           \<and> (\<forall>s \<in> set (prompt_sessions st). s_id s \<noteq> s_id session \<longrightarrow> s \<in> set (prompt_sessions st'))"
  using assms(2,3)
proof (cases rule: handleEdit_succeeded_turns)
  case (1 body' ids' pv' session' n' st1' images' maskParts' ps' mps' st3)
  have b: "body' = body" using 1(1) assms(4) by simp
  have i: "ids' = ids" using 1(2) assms(5) b by simp
  have v: "pv' = pv" using 1(3) assms(6) b by simp
  have r: "session' = session" "n' = n" "st1' = st1" using 1(4) assms(7) b v by simp_all
  have im: "images' = images" using 1(5) assms(8) i by simp
  have ma: "maskParts' = maskParts" using 1(6) assms(9) b by simp
  have "ps' = ps" using 1(7) assms(10) unfolding b v r im ma generateImageFromGemini_def by simp
  then have mp: "mps' = mps" using 1(8) assms(11) by simp
  note stored = reachable_stored[OF assms(1)]
  have lookup: "getSessionById st1 (s_id session) = Some session"
    by (rule resolveSession_lookup[OF assms(7)])
  have before: "(st1 = st \<and> getSessionById st (s_id session) = Some session)
      \<or> (prompt_sessions st1 = prompt_sessions st @ [session]
          \<and> s_id session \<notin> set (map s_id (prompt_sessions st))
          \<and> s_history session = Text_JSON (JArr []))"
    using resolveSession_effect[OF assms(7)] lookup by auto
  have "\<exists>msgs. s_history session = stringifyHistory msgs
          \<and> (\<forall>m \<in> set msgs. parseMessage (encodeMessage m) = Some m)
          \<and> length msgs \<le> maxMessages_default"
  proof -
    from before show ?thesis
    proof
      assume "st1 = st \<and> getSessionById st (s_id session) = Some session"
      then have "session \<in> set (prompt_sessions st)" using getSessionById_mem by blast
      then show ?thesis using stored by blast
    next
      assume "prompt_sessions st1 = prompt_sessions st @ [session]
          \<and> s_id session \<notin> set (map s_id (prompt_sessions st))
          \<and> s_history session = Text_JSON (JArr [])"
      then have "s_history session = stringifyHistory []" by (simp add: stringifyHistory_def)
      then show ?thesis by (intro exI[of _ "[]"]) simp
    qed
  qed
  then obtain msgs where m: "s_history session = stringifyHistory msgs"
    "\<forall>m \<in> set msgs. parseMessage (encodeMessage m) = Some m" "length msgs \<le> maxMessages_default"
    by blast
  have p: "parseHistory (s_history session) = (msgs, [])"
    unfolding m(1) by (rule parseHistory_stringifyHistory[OF m(2)])
  let ?u = "userTurn (the_default [] (edit_prompt body)) (images @ maskParts)"
  let ?m = "\<lparr> role = Some (JStr ''model''), parts = mps \<rparr>"
  have st': "st' = saveHistory (s_id session) (trimHistory (msgs @ [?u, ?m]) maxMessages_default) st3"
    using 1(10) unfolding b r im ma mp p by simp
  have s3: "prompt_sessions st3 = prompt_sessions st1" using 1(9) r by simp
  have "getSessionById st3 (s_id session) = Some session"
    using lookup s3 by (simp add: getSessionById_def)
  then have after: "getSessionById st' (s_id session)
      = Some (session \<lparr> s_history := stringifyHistory (trimHistory (msgs @ [?u, ?m]) maxMessages_default) \<rparr>)"
    unfolding st' by (rule getSessionById_saveHistory)
  have enc: "stringifyHistory (trimHistory (msgs @ [?u, ?m]) maxMessages_default)
      = Text_JSON (JArr (trimHistory (map encodeMessage msgs @ [encodeMessage ?u, encodeMessage ?m]) 20))"
    by (simp add: stringifyHistory_def trimHistory_map maxMessages_default_def)
  have others: "\<forall>s \<in> set (prompt_sessions st). s_id s \<noteq> s_id session \<longrightarrow> s \<in> set (prompt_sessions st')"
  proof (intro ballI impI)
    fix s assume s: "s \<in> set (prompt_sessions st)" "s_id s \<noteq> s_id session"
    then have "s \<in> set (prompt_sessions st3)" using before s3 by auto
    then show "s \<in> set (prompt_sessions st')"
      unfolding st' saveHistory_def using s(2) by (auto simp: image_iff intro!: bexI[of _ s])
  qed
  have first: "getSessionById st (s_id session) = Some session
               \<or> (s_id session \<notin> set (map s_id (prompt_sessions st)) \<and> map encodeMessage msgs = [])"
    using before m(1) by (auto simp: stringifyHistory_def)
  show ?thesis
    apply (rule exI[of _ "map encodeMessage msgs"])
    using m(1,3) first after others unfolding enc
    apply (simp add: stringifyHistory_def maxMessages_default_def)
    done
qed

text \<open>
  Claim C5. \<open>trimHistory\<close> never returns more than the cap; when the history is longer than
  the cap, what it returns is the last \<open>cap\<close> turns, in their order, and the turns before them
  are the ones evicted; a history within the cap is returned as it is. After any sequence
  of appends, each followed by the trim, the history is the last \<open>cap\<close> turns of everything
  appended. In a state the worker can reach, a successful edit finds a JSON array of at
  most 20 turns stored for the session it resolved, and leaves stored for that session the
  last 20 turns of that array followed by the user turn and the model turn of the
  request, every other session being as it was; and in every reachable state every
  session's stored history is an array of at most 20 turns.
\<close>

theorem history_within_cap:
  "length (trimHistory history cap) \<le> cap
   \<and> (cap < length history \<longrightarrow>
        length (trimHistory history cap) = cap
        \<and> (\<exists>evicted. history = evicted @ trimHistory history cap))
   \<and> (length history \<le> cap \<longrightarrow> trimHistory history cap = history)
   \<and> foldl (\<lambda>h turns. trimHistory (h @ turns) cap) (trimHistory history cap) appended
        = trimHistory (history @ concat appended) cap
   \<and> (reachable st \<and> handleEdit w request st = (out, st') \<and> succeeded out
        \<and> request = Some body \<and> image_ids body = Some ids
        \<and> pv = (if truthy (previous_version_id body)
                  then getVersionById st (the_default [] (previous_version_id body)) else None)
        \<and> resolveSession w body pv st = Inr (Some session, n, st1)
        \<and> imagePayloads w ids = Inr images
        \<and> maskPayloads w (case masks body of None \<Rightarrow> [] | Some ms \<Rightarrow> ms) = Inr maskParts
        \<and> generateContent w (case GEMINI_MODEL w of None \<Rightarrow> DEFAULT_MODEL | Some m \<Rightarrow> m)
             (fst (parseHistory (s_history session))
                @ [userTurn (the_default [] (edit_prompt body)) (images @ maskParts)])
             (buildSystemInstruction w (editDesignIntent pv session)
                (inferCameraAngle (the_default [] (edit_prompt body)) (camera_hint body)))
             (editAspectRatio body pv)
           = Inr (Some (JArr ps))
        \<and> normalizeParts ps = Some mps
      \<longrightarrow>
        (\<exists>old. s_history session = Text_JSON (JArr old)
           \<and> length old \<le> 20
           \<and> (getSessionById st (s_id session) = Some session
               \<or> (s_id session \<notin> set (map s_id (prompt_sessions st)) \<and> old = []))
           \<and> getSessionById st' (s_id session)
               = Some (session \<lparr> s_history :=
                         Text_JSON (JArr (trimHistory
                           (old @ [encodeMessage (userTurn (the_default [] (edit_prompt body)) (images @ maskParts)),
                                   encodeMessage \<lparr> role = Some (JStr ''model''), parts = mps \<rparr>])
                           20)) \<rparr>)
           \<and> (\<forall>s \<in> set (prompt_sessions st). s_id s \<noteq> s_id session \<longrightarrow> s \<in> set (prompt_sessions st'))))
   \<and> (reachable st \<longrightarrow>
        (\<forall>s \<in> set (prompt_sessions st). \<exists>n. historyLength (s_history s) = Some n \<and> n \<le> 20))"
proof (intro conjI impI)
  show "length (trimHistory history cap) \<le> cap" by (rule trimHistory_length)
next
  assume c: "cap < length history"
  show "length (trimHistory history cap) = cap" using c by (simp add: trimHistory_def)
next
  have "history = take (length history - cap) history @ trimHistory history cap"
    by (simp add: trimHistory_drop)
  then show "\<exists>evicted. history = evicted @ trimHistory history cap" ..
next
  assume "length history \<le> cap"
  then show "trimHistory history cap = history" by (simp add: trimHistory_def)
next
  show "foldl (\<lambda>h turns. trimHistory (h @ turns) cap) (trimHistory history cap) appended
        = trimHistory (history @ concat appended) cap"
    by (rule trimHistory_foldl)
next
  assume a: "reachable st \<and> handleEdit w request st = (out, st') \<and> succeeded out
        \<and> request = Some body \<and> image_ids body = Some ids
        \<and> pv = (if truthy (previous_version_id body)
                  then getVersionById st (the_default [] (previous_version_id body)) else None)
        \<and> resolveSession w body pv st = Inr (Some session, n, st1)
        \<and> imagePayloads w ids = Inr images
        \<and> maskPayloads w (case masks body of None \<Rightarrow> [] | Some ms \<Rightarrow> ms) = Inr maskParts
        \<and> generateContent w (case GEMINI_MODEL w of None \<Rightarrow> DEFAULT_MODEL | Some m \<Rightarrow> m)
             (fst (parseHistory (s_history session))
                @ [userTurn (the_default [] (edit_prompt body)) (images @ maskParts)])
             (buildSystemInstruction w (editDesignIntent pv session)
                (inferCameraAngle (the_default [] (edit_prompt body)) (camera_hint body)))
             (editAspectRatio body pv)
           = Inr (Some (JArr ps))
        \<and> normalizeParts ps = Some mps"
  then have a1: "reachable st" and a2: "handleEdit w request st = (out, st')" and a3: "succeeded out"
    and a4: "request = Some body" and a5: "image_ids body = Some ids"
    and a6: "pv = (if truthy (previous_version_id body)
                  then getVersionById st (the_default [] (previous_version_id body)) else None)"
    and a7: "resolveSession w body pv st = Inr (Some session, n, st1)"
    and a8: "imagePayloads w ids = Inr images"
    and a9: "maskPayloads w (case masks body of None \<Rightarrow> [] | Some ms \<Rightarrow> ms) = Inr maskParts"
    and a10: "generateContent w (case GEMINI_MODEL w of None \<Rightarrow> DEFAULT_MODEL | Some m \<Rightarrow> m)
             (fst (parseHistory (s_history session))
                @ [userTurn (the_default [] (edit_prompt body)) (images @ maskParts)])
             (buildSystemInstruction w (editDesignIntent pv session)
                (inferCameraAngle (the_default [] (edit_prompt body)) (camera_hint body)))
             (editAspectRatio body pv)
           = Inr (Some (JArr ps))"
    and a11: "normalizeParts ps = Some mps"
    by blast+
  show "\<exists>old. s_history session = Text_JSON (JArr old)
           \<and> length old \<le> 20
           \<and> (getSessionById st (s_id session) = Some session
               \<or> (s_id session \<notin> set (map s_id (prompt_sessions st)) \<and> old = []))
           \<and> getSessionById st' (s_id session)
               = Some (session \<lparr> s_history :=
                         Text_JSON (JArr (trimHistory
                           (old @ [encodeMessage (userTurn (the_default [] (edit_prompt body)) (images @ maskParts)),
                                   encodeMessage \<lparr> role = Some (JStr ''model''), parts = mps \<rparr>])
                           20)) \<rparr>)
           \<and> (\<forall>s \<in> set (prompt_sessions st). s_id s \<noteq> s_id session \<longrightarrow> s \<in> set (prompt_sessions st'))"
    by (rule edit_appends_turns[OF a1 a2 a3 a4 a5 a6 a7 a8 a9 a10 a11])
next
  assume "reachable st"
  then show "\<forall>s \<in> set (prompt_sessions st). \<exists>n. historyLength (s_history s) = Some n \<and> n \<le> 20"
    using reachable_history_bounded by (simp add: maxMessages_default_def)
qed

lemma editedState_sessions:
  "map (\<lambda>s. (s_id s, historyLength (s_history s))) (prompt_sessions editedState) = [(''r1-a'', Some 2)]"
  unfolding editedState_def uploadedState_value
  by (simp add: run_simps)

lemma second_edit_reaches_model:
  obtains pv session where
    "pv = (if truthy (previous_version_id followUpRequest)
           then getVersionById editedState (the_default [] (previous_version_id followUpRequest)) else None)"
    "resolveSession (demoWorld ''r3'' 200 replyImage (Images_stored ''img-3'')) followUpRequest pv editedState
       = Inr (Some session, 0, editedState)"
    "s_id session = ''r1-a''" "historyLength (s_history session) = Some 2"
    "succeeded (fst (handleEdit (demoWorld ''r3'' 200 replyImage (Images_stored ''img-3''))
                       (Some followUpRequest) editedState))"
proof -
  define pv where "pv = (if truthy (previous_version_id followUpRequest)
           then getVersionById editedState (the_default [] (previous_version_id followUpRequest)) else None)"
  have "\<exists>session. resolveSession (demoWorld ''r3'' 200 replyImage (Images_stored ''img-3'')) followUpRequest pv editedState
       = Inr (Some session, 0, editedState)
       \<and> s_id session = ''r1-a'' \<and> historyLength (s_history session) = Some 2"
    unfolding pv_def editedState_def uploadedState_value
    by (simp add: run_simps)
  moreover have "succeeded (fst (handleEdit (demoWorld ''r3'' 200 replyImage (Images_stored ''img-3''))
                       (Some followUpRequest) editedState))"
    unfolding editedState_def uploadedState_value
    by (simp add: run_simps succeeded_def)
  ultimately show ?thesis using that[OF pv_def] by blast
qed

text \<open>
  The theorem at a history of three turns under a cap of two, at two appends to it, and at
  the second edit of the uploaded version: the session held the two turns of the first
  edit, and holds four after the second.
\<close>

theorem history_within_cap_witness:
  "(2::nat) < length [1, 2, 3 :: nat]
   \<and> length (trimHistory [1, 2, 3 :: nat] 2) = 2
   \<and> trimHistory [1, 2, 3 :: nat] 2 = [2, 3]
   \<and> foldl (\<lambda>h turns. trimHistory (h @ turns) 2) (trimHistory [1, 2, 3 :: nat] 2) [[4], [5, 6]] = [5, 6]
   \<and> reachable editedState
   \<and> map (\<lambda>s. (s_id s, historyLength (s_history s))) (prompt_sessions editedState) = [(''r1-a'', Some 2)]
   \<and> map_option (\<lambda>s. historyLength (s_history s)) (getSessionById tiedState ''r1-a'') = Some (Some 4)
   \<and> list_all (\<lambda>s. \<exists>n. historyLength (s_history s) = Some n \<and> n \<le> 20) (prompt_sessions editedState)"
proof (intro conjI)
  show c: "(2::nat) < length [1, 2, 3 :: nat]" by simp
  show "length (trimHistory [1, 2, 3 :: nat] 2) = 2"
    using history_within_cap[of "[1, 2, 3 :: nat]" 2, THEN conjunct2, THEN conjunct1, rule_format, OF c]
    by (rule conjunct1)
  show "trimHistory [1, 2, 3 :: nat] 2 = [2, 3]" by (simp add: trimHistory_def)
  have "foldl (\<lambda>h turns. trimHistory (h @ turns) 2) (trimHistory [1, 2, 3 :: nat] 2) [[4], [5, 6]]
          = trimHistory ([1, 2, 3] @ concat [[4], [5, 6]]) 2"
    by (rule history_within_cap[of "[1, 2, 3 :: nat]" 2 "[[4], [5, 6]]",
          THEN conjunct2, THEN conjunct2, THEN conjunct2, THEN conjunct1])
  then show "foldl (\<lambda>h turns. trimHistory (h @ turns) 2) (trimHistory [1, 2, 3 :: nat] 2) [[4], [5, 6]] = [5, 6]"
    by (simp add: trimHistory_def)
  show "reachable editedState" by (rule reachable_editedState)
  show "map (\<lambda>s. (s_id s, historyLength (s_history s))) (prompt_sessions editedState) = [(''r1-a'', Some 2)]"
    by (rule editedState_sessions)
  have "\<forall>s \<in> set (prompt_sessions editedState). \<exists>n. historyLength (s_history s) = Some n \<and> n \<le> 20"
    by (rule history_within_cap[where st = editedState,
          THEN conjunct2, THEN conjunct2, THEN conjunct2, THEN conjunct2, THEN conjunct2, THEN mp,
          OF reachable_editedState])
  then show "list_all (\<lambda>s. \<exists>n. historyLength (s_history s) = Some n \<and> n \<le> 20) (prompt_sessions editedState)"
    by (simp add: list_all_iff)
  let ?w = "demoWorld ''r3'' 200 replyImage (Images_stored ''img-3'')"
  let ?R = "handleEdit ?w (Some followUpRequest) editedState"
  let ?part = "\<lparr> ptext = None,
                  inlineData = Some \<lparr> mimeType = JStr ''image/png'', data = Some (JStr ''QUJD'') \<rparr>,
                  thought = None \<rparr>"
  obtain pv session where p:
    "pv = (if truthy (previous_version_id followUpRequest)
           then getVersionById editedState (the_default [] (previous_version_id followUpRequest)) else None)"
    "resolveSession ?w followUpRequest pv editedState = Inr (Some session, 0, editedState)"
    "s_id session = ''r1-a''" "historyLength (s_history session) = Some 2"
    "succeeded (fst ?R)"
    by (rule second_edit_reaches_model)
  have run: "?R = (fst ?R, snd ?R)" by simp
  have ids: "image_ids followUpRequest = Some [''img-1'']" by (simp add: followUpRequest_def editRequest_def)
  have im: "imagePayloads ?w [''img-1''] = Inr [inlinePart ''image/png'' ''PNG'']"
    by (simp add: fetchImageAsBase64_def demoWorld_def)
  have ma: "maskPayloads ?w (case masks followUpRequest of None \<Rightarrow> [] | Some ms \<Rightarrow> ms) = Inr []"
    by (simp add: followUpRequest_def editRequest_def)
  have g: "generateContent ?w (case GEMINI_MODEL ?w of None \<Rightarrow> DEFAULT_MODEL | Some m \<Rightarrow> m)
             (fst (parseHistory (s_history session))
                @ [userTurn (the_default [] (edit_prompt followUpRequest)) ([inlinePart ''image/png'' ''PNG''] @ [])])
             (buildSystemInstruction ?w (editDesignIntent pv session)
                (inferCameraAngle (the_default [] (edit_prompt followUpRequest)) (camera_hint followUpRequest)))
             (editAspectRatio followUpRequest pv)
           = Inr (Some (JArr [imagePart]))"
    by (simp add: demoWorld_def replyImage_def)
  have np: "normalizeParts [imagePart] = Some [?part]"
    by (simp add: imagePart_def normalizeParts_def normalizePart_def coalesce_def)
  from history_within_cap[THEN conjunct2, THEN conjunct2, THEN conjunct2, THEN conjunct2, THEN conjunct1,
      THEN mp, OF conjI[OF reachable_editedState conjI[OF run conjI[OF p(5) conjI[OF refl conjI[OF ids
        conjI[OF p(1) conjI[OF p(2) conjI[OF im conjI[OF ma conjI[OF g np]]]]]]]]]]]
  obtain old where o: "s_history session = Text_JSON (JArr old)"
    "getSessionById (snd ?R) (s_id session)
       = Some (session \<lparr> s_history :=
                 Text_JSON (JArr (trimHistory
                   (old @ [encodeMessage (userTurn (the_default [] (edit_prompt followUpRequest))
                                            ([inlinePart ''image/png'' ''PNG''] @ [])),
                           encodeMessage \<lparr> role = Some (JStr ''model''), parts = [?part] \<rparr>])
                   20)) \<rparr>)"
    by blast
  have "length old = 2" using o(1) p(4) by simp
  then have "length (trimHistory
                   (old @ [encodeMessage (userTurn (the_default [] (edit_prompt followUpRequest))
                                            ([inlinePart ''image/png'' ''PNG''] @ [])),
                           encodeMessage \<lparr> role = Some (JStr ''model''), parts = [?part] \<rparr>])
                   20) = 4"
    by (simp add: trimHistory_def)
  then show "map_option (\<lambda>s. historyLength (s_history s)) (getSessionById tiedState ''r1-a'') = Some (Some 4)"
    using o(2) unfolding p(3) tiedState_def by simp
qed

section \<open>The stored and the returned diff summary\<close>







section \<open>An upload without a design intent\<close>




section \<open>Edits that fail upstream\<close>

text \<open>
  A failed edit leaves the session table as it was, unless the session was made from the
  design intent of the request: that row stays.
\<close>

lemma handleEdit_failed_sessions:
  assumes "handleEdit w request st = (out, st')" and "\<not> succeeded out"
  shows "prompt_sessions st' = prompt_sessions st
         \<or> (\<exists>body s. request = Some body \<and> truthy (base_prompt body)
                \<and> prompt_sessions st' = prompt_sessions st @ [s]
                \<and> s_id s \<notin> set (map s_id (prompt_sessions st))
                \<and> s_base_prompt s = the_default [] (base_prompt body)
                \<and> s_history s = Text_JSON (JArr []))"
  using assms(1)
proof (cases rule: handleEdit_cases)
  case rejected
  then show ?thesis by simp
next
  case (unresolved body pv n)
  have "prompt_sessions st' = prompt_sessions st"
    using resolveSession_effect[OF unresolved(3)] by auto
  then show ?thesis ..
next
  case (resolved body ids pv session n st1)
  have e: "prompt_sessions st' = prompt_sessions st1"
    using editWithSession_failed[OF resolved(7) assms(2)] by simp
  from resolveSession_effect[OF resolved(6)] show ?thesis
  proof
    assume "st1 = st \<and> n = 0 \<and> (\<forall>s. Some session = Some s \<longrightarrow> s \<in> set (prompt_sessions st))"
    then show ?thesis using e by simp
  next
    assume "\<exists>s. Some session = Some s \<and> n = 1 \<and> truthy (base_prompt body)
                 \<and> st1 = st \<lparr> prompt_sessions := prompt_sessions st @ [s] \<rparr>
                 \<and> s_id s \<notin> set (map s_id (prompt_sessions st))
                 \<and> s_history s = Text_JSON (JArr [])"
    then have t: "truthy (base_prompt body)"
      and p: "prompt_sessions st1 = prompt_sessions st @ [session]"
      and f: "s_id session \<notin> set (map s_id (prompt_sessions st))"
      and h: "s_history session = Text_JSON (JArr [])"
      by auto
    have b: "s_base_prompt session = the_default [] (base_prompt body)"
    proof -
      have "session \<notin> set (prompt_sessions st)" using f by auto
      then show ?thesis
        using resolved(6) unfolding resolveSession_precedence
        by (auto split: option.splits if_splits sum.splits prod.splits
            dest!: createSession_effect getSessionById_mem)
    qed
    have "\<exists>body s. request = Some body \<and> truthy (base_prompt body)
                \<and> prompt_sessions st' = prompt_sessions st @ [s]
                \<and> s_id s \<notin> set (map s_id (prompt_sessions st))
                \<and> s_base_prompt s = the_default [] (base_prompt body)
                \<and> s_history s = Text_JSON (JArr [])"
      apply (rule exI[of _ body])
      apply (rule exI[of _ session])
      using resolved(1) t p f b h e apply simp
      done
    then show ?thesis ..
  qed
qed

lemma handleEdit_resolved:
  assumes "request = Some body" and "image_ids body = Some ids" and "ids \<noteq> []"
    and "truthy (edit_prompt body)"
    and "pv = (if truthy (previous_version_id body)
               then getVersionById st (the_default [] (previous_version_id body)) else None)"
    and "resolveSession w body pv st = Inr (Some session, n, st1)"
  shows "handleEdit w request st
         = editWithSession w n body (the_default [] (edit_prompt body)) ids pv session st1"
  using assms(6) unfolding assms(5) by (simp add: handleEdit_def assms(1-4) Let_def)

lemma editWithSession_oracle:
  assumes "imagePayloads w ids = Inr images"
    and "maskPayloads w (case masks body of None \<Rightarrow> [] | Some ms \<Rightarrow> ms) = Inr maskParts"
  shows "editWithSession w n body ep ids pv session st =
     (case generateContent w (case GEMINI_MODEL w of None \<Rightarrow> DEFAULT_MODEL | Some m \<Rightarrow> m)
             (fst (parseHistory (s_history session)) @ [userTurn ep (images @ maskParts)])
             (buildSystemInstruction w (editDesignIntent pv session) (inferCameraAngle ep (camera_hint body)))
             (editAspectRatio body pv) of
        Inl e \<Rightarrow> (Threw e, st \<lparr> console := console st @ snd (parseHistory (s_history session)) \<rparr>)
      | Inr candidateParts \<Rightarrow>
          if \<not> hasLength candidateParts
          then (Returned (jsonResponse (errorBody ''Gemini response did not include image data'') 502),
                st \<lparr> console := console st @ snd (parseHistory (s_history session)) \<rparr>)
          else
            (case candidateParts of
               Some (JArr ps) \<Rightarrow>
                 (case normalizeParts ps of
                    None \<Rightarrow> (Threw ''Cannot read properties of null'',
                              st \<lparr> console := console st @ snd (parseHistory (s_history session)) \<rparr>)
                  | Some modelParts \<Rightarrow>
                      (case find (\<lambda>part. inlineData part \<noteq> None) modelParts of
                         None \<Rightarrow>
                           (Returned (jsonResponse (errorBody ''Gemini response missing inline image'') 502),
                            st \<lparr> console := console st @ snd (parseHistory (s_history session)) \<rparr>)
                       | Some inlineImagePart \<Rightarrow>
                           (case inlineData inlineImagePart of
                              None \<Rightarrow>
                                (Returned (jsonResponse (errorBody ''Gemini response missing inline image'') 502),
                                 st \<lparr> console := console st @ snd (parseHistory (s_history session)) \<rparr>)
                            | Some inline \<Rightarrow>
                                persistEdit w n ep ids (map_option pv_id pv) session (editDesignIntent pv session)
                                  (editAspectRatio body pv) (inferCameraAngle ep (camera_hint body))
                                  (fst (parseHistory (s_history session)) @ [userTurn ep (images @ maskParts)])
                                  modelParts inline
                                  (st \<lparr> console := console st @ snd (parseHistory (s_history session)) \<rparr>))))
             | _ \<Rightarrow> (Threw ''parts.map is not a function'',
                      st \<lparr> console := console st @ snd (parseHistory (s_history session)) \<rparr>)))"
  unfolding editWithSession_def Let_def case_prod_beta assms generateImageFromGemini_def
  by simp

lemma persistEdit_not_stored:
  assumes "decodeBase64 w (data inline) = Inr bytes"
    and "\<forall>imageId. images_post w bytes
            (if js_truthy (Some (if mimeType inline = JNull then JStr ''image/png'' else mimeType inline))
             then (if mimeType inline = JNull then JStr ''image/png'' else mimeType inline)
             else JStr ''image/png'')
            (JObj (editMetadata w ep ids parentId session ar ca)) \<noteq> Images_stored imageId"
  shows "\<exists>e. fst (persistEdit w n ep ids parentId session di ar ca msgs mps inline st) = Threw e"
  using assms(2)
  by (cases "images_post w bytes
            (if js_truthy (Some (if mimeType inline = JNull then JStr ''image/png'' else mimeType inline))
             then (if mimeType inline = JNull then JStr ''image/png'' else mimeType inline)
             else JStr ''image/png'')
            (JObj (editMetadata w ep ids parentId session ar ca))")
     (simp_all add: persistEdit_def Let_def assms(1) uploadToCloudflareImages_def)

lemma find_no_inline:
  "list_all (\<lambda>p. inlineData p = None) mps \<Longrightarrow> find (\<lambda>part. inlineData part \<noteq> None) mps = None"
  by (induction mps) auto

text \<open>
  Claim C1, as the code has it. Take an edit request that reaches the call of the model:
  its session is resolved and its images and masks are read. If that call throws, the
  request throws the same error; if its answer has no parts, or parts without an inline
  image, the request is answered 502; if the answer has an inline image and the upload of
  that image, with the metadata of this request, is not stored by Cloudflare Images, the
  request throws. In none of these cases does the edit succeed; and an edit that does not
  succeed leaves \<open>image_versions\<close> as it was and changes no session that existed: the one
  change it can leave in \<open>prompt_sessions\<close> is the session that the resolution made from the
  request's design intent, appended with its empty history.
\<close>

theorem failed_edit_keeps_versions_and_sessions:
  "handleEdit w request st = (out, st') \<longrightarrow>
     (request = Some body \<and> image_ids body = Some ids \<and> ids \<noteq> [] \<and> truthy (edit_prompt body)
      \<and> pv = (if truthy (previous_version_id body)
                then getVersionById st (the_default [] (previous_version_id body)) else None)
      \<and> resolveSession w body pv st = Inr (Some session, n, st1)
      \<and> imagePayloads w ids = Inr images
      \<and> maskPayloads w (case masks body of None \<Rightarrow> [] | Some ms \<Rightarrow> ms) = Inr maskParts
      \<and> reply = generateContent w (case GEMINI_MODEL w of None \<Rightarrow> DEFAULT_MODEL | Some m \<Rightarrow> m)
                   (fst (parseHistory (s_history session))
                      @ [userTurn (the_default [] (edit_prompt body)) (images @ maskParts)])
                   (buildSystemInstruction w (editDesignIntent pv session)
                      (inferCameraAngle (the_default [] (edit_prompt body)) (camera_hint body)))
                   (editAspectRatio body pv)
      \<longrightarrow>
        (\<forall>e. reply = Inl e \<longrightarrow> out = Threw e \<and> \<not> succeeded out)
        \<and> (\<forall>r. reply = Inr r \<and> \<not> hasLength r \<longrightarrow>
              out = Returned (jsonResponse (errorBody ''Gemini response did not include image data'') 502)
              \<and> \<not> succeeded out)
        \<and> (\<forall>ps mps. reply = Inr (Some (JArr ps)) \<and> normalizeParts ps = Some mps
                \<and> list_all (\<lambda>p. inlineData p = None) mps \<longrightarrow>
              status (respond out) = 502 \<and> \<not> succeeded out)
        \<and> (\<forall>ps mps part inline bytes.
              reply = Inr (Some (JArr ps)) \<and> ps \<noteq> [] \<and> normalizeParts ps = Some mps
              \<and> find (\<lambda>p. inlineData p \<noteq> None) mps = Some part \<and> inlineData part = Some inline
              \<and> decodeBase64 w (data inline) = Inr bytes
              \<and> (\<forall>imageId.
                    images_post w bytes
                      (if js_truthy (Some (if mimeType inline = JNull then JStr ''image/png'' else mimeType inline))
                       then (if mimeType inline = JNull then JStr ''image/png'' else mimeType inline)
                       else JStr ''image/png'')
                      (JObj (editMetadata w (the_default [] (edit_prompt body)) ids (map_option pv_id pv) session
                               (editAspectRatio body pv)
                               (inferCameraAngle (the_default [] (edit_prompt body)) (camera_hint body))))
                    \<noteq> Images_stored imageId)
              \<longrightarrow> (\<exists>e. out = Threw e) \<and> \<not> succeeded out))
     \<and> (\<not> succeeded out \<longrightarrow>
          image_versions st' = image_versions st
          \<and> (prompt_sessions st' = prompt_sessions st
              \<or> (\<exists>body s. request = Some body \<and> truthy (base_prompt body)
                    \<and> prompt_sessions st' = prompt_sessions st @ [s]
                    \<and> s_id s \<notin> set (map s_id (prompt_sessions st))
                    \<and> s_base_prompt s = the_default [] (base_prompt body)
                    \<and> s_history s = Text_JSON (JArr []))))"
proof (intro impI conjI)
  assume e: "handleEdit w request st = (out, st')"
  assume p: "request = Some body \<and> image_ids body = Some ids \<and> ids \<noteq> [] \<and> truthy (edit_prompt body)
      \<and> pv = (if truthy (previous_version_id body)
                then getVersionById st (the_default [] (previous_version_id body)) else None)
      \<and> resolveSession w body pv st = Inr (Some session, n, st1)
      \<and> imagePayloads w ids = Inr images
      \<and> maskPayloads w (case masks body of None \<Rightarrow> [] | Some ms \<Rightarrow> ms) = Inr maskParts
      \<and> reply = generateContent w (case GEMINI_MODEL w of None \<Rightarrow> DEFAULT_MODEL | Some m \<Rightarrow> m)
                   (fst (parseHistory (s_history session))
                      @ [userTurn (the_default [] (edit_prompt body)) (images @ maskParts)])
                   (buildSystemInstruction w (editDesignIntent pv session)
                      (inferCameraAngle (the_default [] (edit_prompt body)) (camera_hint body)))
                   (editAspectRatio body pv)"
  then have p1: "request = Some body" and p2: "image_ids body = Some ids" and p3: "ids \<noteq> []"
    and p4: "truthy (edit_prompt body)"
    and p5: "pv = (if truthy (previous_version_id body)
                then getVersionById st (the_default [] (previous_version_id body)) else None)"
    and p6: "resolveSession w body pv st = Inr (Some session, n, st1)"
    by blast+
  have h: "handleEdit w request st
         = editWithSession w n body (the_default [] (edit_prompt body)) ids pv session st1"
    by (rule handleEdit_resolved[OF p1 p2 p3 p4 p5 p6])
  from p have ip: "imagePayloads w ids = Inr images"
    and mp: "maskPayloads w (case masks body of None \<Rightarrow> [] | Some ms \<Rightarrow> ms) = Inr maskParts"
    and r: "generateContent w (case GEMINI_MODEL w of None \<Rightarrow> DEFAULT_MODEL | Some m \<Rightarrow> m)
                   (fst (parseHistory (s_history session))
                      @ [userTurn (the_default [] (edit_prompt body)) (images @ maskParts)])
                   (buildSystemInstruction w (editDesignIntent pv session)
                      (inferCameraAngle (the_default [] (edit_prompt body)) (camera_hint body)))
                   (editAspectRatio body pv) = reply"
    by simp_all
  note run = e[unfolded h editWithSession_oracle[OF ip mp] r]
  show "\<forall>e. reply = Inl e \<longrightarrow> out = Threw e \<and> \<not> succeeded out"
    using run by auto
  show "\<forall>r. reply = Inr r \<and> \<not> hasLength r \<longrightarrow>
              out = Returned (jsonResponse (errorBody ''Gemini response did not include image data'') 502)
              \<and> \<not> succeeded out"
    using run by (auto simp: succeeded_def)
  show "\<forall>ps mps. reply = Inr (Some (JArr ps)) \<and> normalizeParts ps = Some mps
                \<and> list_all (\<lambda>p. inlineData p = None) mps \<longrightarrow>
              status (respond out) = 502 \<and> \<not> succeeded out"
  proof (intro allI impI)
    fix ps mps
    assume a: "reply = Inr (Some (JArr ps)) \<and> normalizeParts ps = Some mps
                \<and> list_all (\<lambda>p. inlineData p = None) mps"
    then have "list_all (\<lambda>p. inlineData p = None) mps" by blast
    then have "find (\<lambda>part. inlineData part \<noteq> None) mps = None" by (rule find_no_inline)
    then have "status (respond out) = 502" using run a by (auto split: if_splits)
    then show "status (respond out) = 502 \<and> \<not> succeeded out" by (simp add: succeeded_def)
  qed
  show "\<forall>ps mps part inline bytes.
              reply = Inr (Some (JArr ps)) \<and> ps \<noteq> [] \<and> normalizeParts ps = Some mps
              \<and> find (\<lambda>p. inlineData p \<noteq> None) mps = Some part \<and> inlineData part = Some inline
              \<and> decodeBase64 w (data inline) = Inr bytes
              \<and> (\<forall>imageId.
                    images_post w bytes
                      (if js_truthy (Some (if mimeType inline = JNull then JStr ''image/png'' else mimeType inline))
                       then (if mimeType inline = JNull then JStr ''image/png'' else mimeType inline)
                       else JStr ''image/png'')
                      (JObj (editMetadata w (the_default [] (edit_prompt body)) ids (map_option pv_id pv) session
                               (editAspectRatio body pv)
                               (inferCameraAngle (the_default [] (edit_prompt body)) (camera_hint body))))
                    \<noteq> Images_stored imageId)
              \<longrightarrow> (\<exists>e. out = Threw e) \<and> \<not> succeeded out"
  proof (intro allI impI)
    fix ps mps part inline bytes
    assume a: "reply = Inr (Some (JArr ps)) \<and> ps \<noteq> [] \<and> normalizeParts ps = Some mps
              \<and> find (\<lambda>p. inlineData p \<noteq> None) mps = Some part \<and> inlineData part = Some inline
              \<and> decodeBase64 w (data inline) = Inr bytes
              \<and> (\<forall>imageId.
                    images_post w bytes
                      (if js_truthy (Some (if mimeType inline = JNull then JStr ''image/png'' else mimeType inline))
                       then (if mimeType inline = JNull then JStr ''image/png'' else mimeType inline)
                       else JStr ''image/png'')
                      (JObj (editMetadata w (the_default [] (edit_prompt body)) ids (map_option pv_id pv) session
                               (editAspectRatio body pv)
                               (inferCameraAngle (the_default [] (edit_prompt body)) (camera_hint body))))
                    \<noteq> Images_stored imageId)"
    then have d: "decodeBase64 w (data inline) = Inr bytes" by simp
    from a have ns: "\<forall>imageId.
                    images_post w bytes
                      (if js_truthy (Some (if mimeType inline = JNull then JStr ''image/png'' else mimeType inline))
                       then (if mimeType inline = JNull then JStr ''image/png'' else mimeType inline)
                       else JStr ''image/png'')
                      (JObj (editMetadata w (the_default [] (edit_prompt body)) ids (map_option pv_id pv) session
                               (editAspectRatio body pv)
                               (inferCameraAngle (the_default [] (edit_prompt body)) (camera_hint body))))
                    \<noteq> Images_stored imageId" by simp
    have "(out, st') = persistEdit w n (the_default [] (edit_prompt body)) ids (map_option pv_id pv) session
             (editDesignIntent pv session) (editAspectRatio body pv)
             (inferCameraAngle (the_default [] (edit_prompt body)) (camera_hint body))
             (fst (parseHistory (s_history session))
                @ [userTurn (the_default [] (edit_prompt body)) (images @ maskParts)])
             mps inline (st1 \<lparr> console := console st1 @ snd (parseHistory (s_history session)) \<rparr>)"
      using run a by simp
    then have "\<exists>e. out = Threw e"
      using persistEdit_not_stored[OF d ns] by (metis fst_conv)
    then show "(\<exists>e. out = Threw e) \<and> \<not> succeeded out" by auto
  qed
next
  assume e: "handleEdit w request st = (out, st')"
  assume "\<not> succeeded out"
  then show "image_versions st' = image_versions st"
    using handleEdit_failed[OF e] by simp
next
  assume e: "handleEdit w request st = (out, st')"
  assume "\<not> succeeded out"
  then show "prompt_sessions st' = prompt_sessions st
              \<or> (\<exists>body s. request = Some body \<and> truthy (base_prompt body)
                    \<and> prompt_sessions st' = prompt_sessions st @ [s]
                    \<and> s_id s \<notin> set (map s_id (prompt_sessions st))
                    \<and> s_base_prompt s = the_default [] (base_prompt body)
                    \<and> s_history s = Text_JSON (JArr []))"
    using handleEdit_failed_sessions[OF e] by simp
qed

text \<open>
  Claim C1 as stated has the stored sessions exactly as before also when the resolution
  made a new session. With no session stored, an edit that brings its design intent and
  whose model call throws leaves the new session \<open>r2-a\<close> in \<open>prompt_sessions\<close>.
\<close>

theorem failed_edit_leaves_created_session:
  "fst (handleEdit (demoWorld ''r2'' 200 (Inl ''quota exceeded'') (Images_stored ''img-2''))
          (Some editRequest) emptyState) = Threw ''quota exceeded''
   \<and> getSessionById emptyState ''r2-a'' = None
   \<and> map_option s_history
         (getSessionById (snd (handleEdit (demoWorld ''r2'' 200 (Inl ''quota exceeded'') (Images_stored ''img-2''))
                                 (Some editRequest) emptyState)) ''r2-a'')
       = Some (Text_JSON (JArr []))
   \<and> prompt_sessions (snd (handleEdit (demoWorld ''r2'' 200 (Inl ''quota exceeded'') (Images_stored ''img-2''))
                              (Some editRequest) emptyState))
       \<noteq> prompt_sessions emptyState"
  by (simp add: demo_simps edit_simps Let_def insertSession_def)

lemma followUp_reaches_model:
  assumes "http_get w = http_get (demoWorld ''r2'' 200 replyImage (Images_stored ''img-2''))"
    and "btoa w = btoa (demoWorld ''r2'' 200 replyImage (Images_stored ''img-2''))"
  obtains pv session where
    "pv = (if truthy (previous_version_id followUpRequest)
           then getVersionById uploadedState (the_default [] (previous_version_id followUpRequest)) else None)"
    "resolveSession w followUpRequest pv uploadedState = Inr (Some session, 0, uploadedState)"
    "session \<in> set (prompt_sessions uploadedState)"
    "imagePayloads w [''img-1''] = Inr [inlinePart ''image/png'' ''PNG'']"
    "maskPayloads w (case masks followUpRequest of None \<Rightarrow> [] | Some ms \<Rightarrow> ms) = Inr []"
proof -
  define pv where "pv = (if truthy (previous_version_id followUpRequest)
           then getVersionById uploadedState (the_default [] (previous_version_id followUpRequest)) else None)"
  have "\<exists>session. resolveSession w followUpRequest pv uploadedState = Inr (Some session, 0, uploadedState)
          \<and> session \<in> set (prompt_sessions uploadedState)"
    unfolding pv_def uploadedState_value
    by (simp add: followUpRequest_def editRequest_def resolveSession_def getVersionById_def getSessionById_def)
  then obtain session where
    r: "resolveSession w followUpRequest pv uploadedState = Inr (Some session, 0, uploadedState)"
       "session \<in> set (prompt_sessions uploadedState)"
    by blast
  have i: "imagePayloads w [''img-1''] = Inr [inlinePart ''image/png'' ''PNG'']"
    by (simp add: fetchImageAsBase64_def assms demoWorld_def)
  have m: "maskPayloads w (case masks followUpRequest of None \<Rightarrow> [] | Some ms \<Rightarrow> ms) = Inr []"
    by (simp add: followUpRequest_def editRequest_def)
  show ?thesis by (rule that[OF pv_def r i m])
qed

text \<open>
  The theorem at three edits of the uploaded version. In the first the model throws on the
  turns of the request, though it would answer a call without turns; in the second the
  model answers with text alone; in the third Cloudflare Images rejects the upload. None
  succeeds, and both tables stay as they were.
\<close>

theorem failed_edit_keeps_versions_and_sessions_witness:
  "fst (handleEdit pickyWorld (Some followUpRequest) uploadedState) = Threw ''quota exceeded''
   \<and> generateContent pickyWorld DEFAULT_MODEL [] (buildSystemInstruction pickyWorld [] None) None
       = Inr (Some (JArr [imagePart]))
   \<and> image_versions (snd (handleEdit pickyWorld (Some followUpRequest) uploadedState))
       = image_versions uploadedState
   \<and> prompt_sessions (snd (handleEdit pickyWorld (Some followUpRequest) uploadedState))
       = prompt_sessions uploadedState
   \<and> status (respond (fst (handleEdit (demoWorld ''r2'' 200 replyTextOnly (Images_stored ''img-2''))
                            (Some followUpRequest) uploadedState))) = 502
   \<and> image_versions (snd (handleEdit (demoWorld ''r2'' 200 replyTextOnly (Images_stored ''img-2''))
                              (Some followUpRequest) uploadedState)) = image_versions uploadedState
   \<and> \<not> succeeded (fst (handleEdit (demoWorld ''r2'' 200 replyImage Images_rejected)
                        (Some followUpRequest) uploadedState))
   \<and> image_versions (snd (handleEdit (demoWorld ''r2'' 200 replyImage Images_rejected)
                              (Some followUpRequest) uploadedState)) = image_versions uploadedState"
proof -
  let ?w1 = "pickyWorld"
  let ?w2 = "demoWorld ''r2'' 200 replyTextOnly (Images_stored ''img-2'')"
  let ?w3 = "demoWorld ''r2'' 200 replyImage Images_rejected"
  let ?R1 = "handleEdit ?w1 (Some followUpRequest) uploadedState"
  let ?R2 = "handleEdit ?w2 (Some followUpRequest) uploadedState"
  let ?R3 = "handleEdit ?w3 (Some followUpRequest) uploadedState"
  have p1: "?R1 = (fst ?R1, snd ?R1)" and p2: "?R2 = (fst ?R2, snd ?R2)" and p3: "?R3 = (fst ?R3, snd ?R3)"
    by simp_all
  have b: "Some followUpRequest = Some followUpRequest" "image_ids followUpRequest = Some [''img-1'']"
    "[''img-1''] \<noteq> []" "truthy (edit_prompt followUpRequest)" "\<not> truthy (base_prompt followUpRequest)"
    by (simp_all add: followUpRequest_def editRequest_def)
  have other: "generateContent pickyWorld DEFAULT_MODEL [] (buildSystemInstruction pickyWorld [] None) None
       = Inr (Some (JArr [imagePart]))"
    by (simp add: pickyWorld_def)

  obtain pv1 s1 where a1:
    "pv1 = (if truthy (previous_version_id followUpRequest)
           then getVersionById uploadedState (the_default [] (previous_version_id followUpRequest)) else None)"
    "resolveSession ?w1 followUpRequest pv1 uploadedState = Inr (Some s1, 0, uploadedState)"
    "s1 \<in> set (prompt_sessions uploadedState)"
    "imagePayloads ?w1 [''img-1''] = Inr [inlinePart ''image/png'' ''PNG'']"
    "maskPayloads ?w1 (case masks followUpRequest of None \<Rightarrow> [] | Some ms \<Rightarrow> ms) = Inr []"
    by (rule followUp_reaches_model[of ?w1]) (simp_all add: pickyWorld_def demoWorld_def)
  define reply1 where "reply1 = generateContent ?w1 (case GEMINI_MODEL ?w1 of None \<Rightarrow> DEFAULT_MODEL | Some m \<Rightarrow> m)
                   (fst (parseHistory (s_history s1))
                      @ [userTurn (the_default [] (edit_prompt followUpRequest)) ([inlinePart ''image/png'' ''PNG''] @ [])])
                   (buildSystemInstruction ?w1 (editDesignIntent pv1 s1)
                      (inferCameraAngle (the_default [] (edit_prompt followUpRequest)) (camera_hint followUpRequest)))
                   (editAspectRatio followUpRequest pv1)"
  have r1: "reply1 = Inl ''quota exceeded''" unfolding reply1_def by (simp add: pickyWorld_def)
  note t1 = failed_edit_keeps_versions_and_sessions[THEN mp, OF p1]
  have f1: "fst ?R1 = Threw ''quota exceeded'' \<and> \<not> succeeded (fst ?R1)"
    using t1[THEN conjunct1, THEN mp, OF conjI[OF b(1) conjI[OF b(2) conjI[OF b(3) conjI[OF b(4)
            conjI[OF a1(1) conjI[OF a1(2) conjI[OF a1(4) conjI[OF a1(5) reply1_def]]]]]]]],
          THEN conjunct1] r1
    by blast
  then have n1: "\<not> succeeded (fst ?R1)" by simp
  have v1: "image_versions (snd ?R1) = image_versions uploadedState"
    using t1[THEN conjunct2, THEN mp, OF n1, THEN conjunct1] .
  have s1: "prompt_sessions (snd ?R1) = prompt_sessions uploadedState"
    using t1[THEN conjunct2, THEN mp, OF n1, THEN conjunct2] b(5) by auto

  obtain pv2 s2 where a2:
    "pv2 = (if truthy (previous_version_id followUpRequest)
           then getVersionById uploadedState (the_default [] (previous_version_id followUpRequest)) else None)"
    "resolveSession ?w2 followUpRequest pv2 uploadedState = Inr (Some s2, 0, uploadedState)"
    "s2 \<in> set (prompt_sessions uploadedState)"
    "imagePayloads ?w2 [''img-1''] = Inr [inlinePart ''image/png'' ''PNG'']"
    "maskPayloads ?w2 (case masks followUpRequest of None \<Rightarrow> [] | Some ms \<Rightarrow> ms) = Inr []"
    by (rule followUp_reaches_model[of ?w2]) (simp_all add: demoWorld_def)
  define reply2 where "reply2 = generateContent ?w2 (case GEMINI_MODEL ?w2 of None \<Rightarrow> DEFAULT_MODEL | Some m \<Rightarrow> m)
                   (fst (parseHistory (s_history s2))
                      @ [userTurn (the_default [] (edit_prompt followUpRequest)) ([inlinePart ''image/png'' ''PNG''] @ [])])
                   (buildSystemInstruction ?w2 (editDesignIntent pv2 s2)
                      (inferCameraAngle (the_default [] (edit_prompt followUpRequest)) (camera_hint followUpRequest)))
                   (editAspectRatio followUpRequest pv2)"
  have r2: "reply2 = Inr (Some (JArr [JObj [(''text'', JStr ''I cannot draw that.'')]]))
            \<and> normalizeParts [JObj [(''text'', JStr ''I cannot draw that.'')]]
                = Some [\<lparr> ptext = Some ''I cannot draw that.'', inlineData = None, thought = None \<rparr>]
            \<and> list_all (\<lambda>p. inlineData p = None)
                 [\<lparr> ptext = Some ''I cannot draw that.'', inlineData = None, thought = None \<rparr>]"
    unfolding reply2_def
    by (simp add: demoWorld_def replyTextOnly_def normalizeParts_def normalizePart_def coalesce_def)
  note t2 = failed_edit_keeps_versions_and_sessions[THEN mp, OF p2]
  have f2: "status (respond (fst ?R2)) = 502 \<and> \<not> succeeded (fst ?R2)"
    using t2[THEN conjunct1, THEN mp, OF conjI[OF b(1) conjI[OF b(2) conjI[OF b(3) conjI[OF b(4)
            conjI[OF a2(1) conjI[OF a2(2) conjI[OF a2(4) conjI[OF a2(5) reply2_def]]]]]]]],
          THEN conjunct2, THEN conjunct2, THEN conjunct1] r2
    by blast
  then have n2: "\<not> succeeded (fst ?R2)" by simp
  have v2: "image_versions (snd ?R2) = image_versions uploadedState"
    using t2[THEN conjunct2, THEN mp, OF n2, THEN conjunct1] .

  obtain pv3 s3 where a3:
    "pv3 = (if truthy (previous_version_id followUpRequest)
           then getVersionById uploadedState (the_default [] (previous_version_id followUpRequest)) else None)"
    "resolveSession ?w3 followUpRequest pv3 uploadedState = Inr (Some s3, 0, uploadedState)"
    "s3 \<in> set (prompt_sessions uploadedState)"
    "imagePayloads ?w3 [''img-1''] = Inr [inlinePart ''image/png'' ''PNG'']"
    "maskPayloads ?w3 (case masks followUpRequest of None \<Rightarrow> [] | Some ms \<Rightarrow> ms) = Inr []"
    by (rule followUp_reaches_model[of ?w3]) (simp_all add: demoWorld_def)
  define reply3 where "reply3 = generateContent ?w3 (case GEMINI_MODEL ?w3 of None \<Rightarrow> DEFAULT_MODEL | Some m \<Rightarrow> m)
                   (fst (parseHistory (s_history s3))
                      @ [userTurn (the_default [] (edit_prompt followUpRequest)) ([inlinePart ''image/png'' ''PNG''] @ [])])
                   (buildSystemInstruction ?w3 (editDesignIntent pv3 s3)
                      (inferCameraAngle (the_default [] (edit_prompt followUpRequest)) (camera_hint followUpRequest)))
                   (editAspectRatio followUpRequest pv3)"
  let ?part = "\<lparr> ptext = None,
                  inlineData = Some \<lparr> mimeType = JStr ''image/png'', data = Some (JStr ''QUJD'') \<rparr>,
                  thought = None \<rparr>"
  let ?inline = "\<lparr> mimeType = JStr ''image/png'', data = Some (JStr ''QUJD'') \<rparr>"
  have r3: "reply3 = Inr (Some (JArr [imagePart])) \<and> [imagePart] \<noteq> []
            \<and> normalizeParts [imagePart] = Some [?part]
            \<and> find (\<lambda>p. inlineData p \<noteq> None) [?part] = Some ?part
            \<and> inlineData ?part = Some ?inline
            \<and> decodeBase64 ?w3 (data ?inline) = Inr ''QUJD''
            \<and> (\<forall>imageId.
                    images_post ?w3 ''QUJD''
                      (if js_truthy (Some (if mimeType ?inline = JNull then JStr ''image/png'' else mimeType ?inline))
                       then (if mimeType ?inline = JNull then JStr ''image/png'' else mimeType ?inline)
                       else JStr ''image/png'')
                      (JObj (editMetadata ?w3 (the_default [] (edit_prompt followUpRequest)) [''img-1'']
                               (map_option pv_id pv3) s3
                               (editAspectRatio followUpRequest pv3)
                               (inferCameraAngle (the_default [] (edit_prompt followUpRequest))
                                  (camera_hint followUpRequest))))
                    \<noteq> Images_stored imageId)"
    unfolding reply3_def
    by (simp add: demoWorld_def replyImage_def imagePart_def normalizeParts_def normalizePart_def
        coalesce_def decodeBase64_def isWhiteSpace_def)
  note t3 = failed_edit_keeps_versions_and_sessions[THEN mp, OF p3]
  have f3: "(\<exists>e. fst ?R3 = Threw e) \<and> \<not> succeeded (fst ?R3)"
    using t3[THEN conjunct1, THEN mp, OF conjI[OF b(1) conjI[OF b(2) conjI[OF b(3) conjI[OF b(4)
            conjI[OF a3(1) conjI[OF a3(2) conjI[OF a3(4) conjI[OF a3(5) reply3_def]]]]]]]],
          THEN conjunct2, THEN conjunct2, THEN conjunct2, rule_format, OF r3] .
  then have n3: "\<not> succeeded (fst ?R3)" by simp
  have v3: "image_versions (snd ?R3) = image_versions uploadedState"
    using t3[THEN conjunct2, THEN mp, OF n3, THEN conjunct1] .
  show ?thesis using f1 other v1 s1 f2 v2 n3 v3 by (intro conjI) simp_all
qed

section \<open>Session resolution\<close>

lemma handleEdit_status:
  assumes "handleEdit w request st = (out, st')"
  shows "status (respond out) = 200 \<or> status (respond out) = 400
         \<or> status (respond out) = 500 \<or> status (respond out) = 502"
  using assms
proof (cases rule: handleEdit_cases)
  case rejected
  then show ?thesis by auto
next
  case (unresolved body pv n)
  then show ?thesis by simp
next
  case (resolved body ids pv session n st1)
  from resolved(7) show ?thesis
  proof (cases rule: editWithSession_cases)
    case failed
    then show ?thesis by auto
  next
    case (answered images maskParts ps mps part inline)
    from answered(7) show ?thesis
    proof (cases rule: persistEdit_cases)
      case failed
      then show ?thesis by simp
    next
      case (stored imageBytes imageId st1 st2)
      then show ?thesis by simp
    qed
  qed
qed

lemma sessionOfPrevious_eq:
  "sessionOfPrevious st body
     = (case (if truthy (previous_version_id body)
              then getVersionById st (the_default [] (previous_version_id body)) else None) of
          None \<Rightarrow> None
        | Some p \<Rightarrow> if truthy (pv_chat_id p) then getSessionById st (the_default [] (pv_chat_id p)) else None)"
  by (cases "previous_version_id body")
     (auto simp: sessionOfPrevious_def getVersionById_def getSessionById_def split: option.splits)

lemma sessionOfId_eq:
  "sessionOfId st body
     = (if truthy (session_id body) then getSessionById st (the_default [] (session_id body)) else None)"
  by (cases "session_id body") (auto simp: sessionOfId_def getSessionById_def)

text \<open>
  Claim C2, as the code has it. For a request with image ids and an edit prompt the session
  is, in this order: the session the previous version refers to; else the session the
  \<open>session_id\<close> names; else a new session made from the design intent; else the request
  fails with status 400. An id that resolves to no record counts as not given, and the
  next rule applies. No edit request is answered with status 404.
\<close>

theorem session_resolution_falls_through:
  "(request = Some body \<and> image_ids body = Some ids \<and> ids \<noteq> [] \<and> truthy (edit_prompt body)
     \<and> previousVersion = (if truthy (previous_version_id body)
                           then getVersionById st (the_default [] (previous_version_id body)) else None)
     \<longrightarrow>
     handleEdit w request st =
       (case sessionOfPrevious st body of
          Some s \<Rightarrow> editWithSession w 0 body (the_default [] (edit_prompt body)) ids previousVersion s st
        | None \<Rightarrow>
            (case sessionOfId st body of
               Some s \<Rightarrow> editWithSession w 0 body (the_default [] (edit_prompt body)) ids previousVersion s st
             | None \<Rightarrow>
                 if truthy (base_prompt body)
                 then (case createSession w 0 (the_default [] (base_prompt body)) st of
                         Inl e \<Rightarrow> (Threw e, st)
                       | Inr (s, st1) \<Rightarrow>
                           editWithSession w 1 body (the_default [] (edit_prompt body)) ids previousVersion s st1)
                 else (Returned (jsonResponse (errorBody ''A session or base prompt is required to edit'') 400),
                       st))))
   \<and> status (respond (fst (handleEdit w request st))) \<noteq> 404"
proof (intro conjI impI)
  assume a: "request = Some body \<and> image_ids body = Some ids \<and> ids \<noteq> [] \<and> truthy (edit_prompt body)
     \<and> previousVersion = (if truthy (previous_version_id body)
                           then getVersionById st (the_default [] (previous_version_id body)) else None)"
  then have req: "request = Some body" and ids: "image_ids body = Some ids" and ne: "ids \<noteq> []"
    and tr: "truthy (edit_prompt body)"
    and pv: "previousVersion = (if truthy (previous_version_id body)
                           then getVersionById st (the_default [] (previous_version_id body)) else None)"
    by simp_all
  have h: "handleEdit w request st =
      (case resolveSession w body previousVersion st of
          Inl e \<Rightarrow> (Threw e, st)
        | Inr (None, n, st1) \<Rightarrow>
            (Returned (jsonResponse (errorBody ''A session or base prompt is required to edit'') 400), st1)
        | Inr (Some session, n, st1) \<Rightarrow>
            editWithSession w n body (the_default [] (edit_prompt body)) ids previousVersion session st1)"
    unfolding pv handleEdit_def Let_def using req ids ne tr by (simp split del: if_split)
  have r: "resolveSession w body previousVersion st =
     (case sessionOfPrevious st body of
        Some s \<Rightarrow> Inr (Some s, 0, st)
      | None \<Rightarrow>
          (case sessionOfId st body of
             Some s \<Rightarrow> Inr (Some s, 0, st)
           | None \<Rightarrow>
               if truthy (base_prompt body)
               then (case createSession w 0 (the_default [] (base_prompt body)) st of
                       Inl e \<Rightarrow> Inl e
                     | Inr (s, st') \<Rightarrow> Inr (Some s, 1, st'))
               else Inr (None, 0, st)))"
    unfolding sessionOfPrevious_eq sessionOfId_eq pv[symmetric] by (rule resolveSession_precedence)
  show "handleEdit w request st =
       (case sessionOfPrevious st body of
          Some s \<Rightarrow> editWithSession w 0 body (the_default [] (edit_prompt body)) ids previousVersion s st
        | None \<Rightarrow>
            (case sessionOfId st body of
               Some s \<Rightarrow> editWithSession w 0 body (the_default [] (edit_prompt body)) ids previousVersion s st
             | None \<Rightarrow>
                 if truthy (base_prompt body)
                 then (case createSession w 0 (the_default [] (base_prompt body)) st of
                         Inl e \<Rightarrow> (Threw e, st)
                       | Inr (s, st1) \<Rightarrow>
                           editWithSession w 1 body (the_default [] (edit_prompt body)) ids previousVersion s st1)
                 else (Returned (jsonResponse (errorBody ''A session or base prompt is required to edit'') 400),
                       st)))"
    unfolding h r by (auto split: option.splits sum.splits prod.splits)
next
  have "handleEdit w request st = (fst (handleEdit w request st), snd (handleEdit w request st))" by simp
  from handleEdit_status[OF this] show "status (respond (fst (handleEdit w request st))) \<noteq> 404"
    by auto
qed

text \<open>
  Claim C2 as stated has an id that resolves to no record fail with NotFound. With the
  upload stored, an edit that names the previous version \<open>missing\<close> and the session \<open>r1-a\<close> is
  answered 200 with a root version of session \<open>r1-a\<close>; an edit that names the session
  \<open>missing\<close> and a design intent is answered 200 with a new session \<open>r2-a\<close>.
\<close>

theorem unresolved_id_is_not_NotFound:
  "getVersionById uploadedState ''missing'' = None
   \<and> status (respond (fst (handleEdit (demoWorld ''r2'' 200 replyImage (Images_stored ''img-2''))
                              (Some staleVersionRequest) uploadedState))) = 200
   \<and> map (\<lambda>v. (v_parent_id v, v_chat_id v))
         (image_versions (snd (handleEdit (demoWorld ''r2'' 200 replyImage (Images_stored ''img-2''))
                                 (Some staleVersionRequest) uploadedState)))
       = [(None, Some ''r1-a''), (None, Some ''r1-a'')]
   \<and> getSessionById uploadedState ''missing'' = None
   \<and> status (respond (fst (handleEdit (demoWorld ''r2'' 200 replyImage (Images_stored ''img-2''))
                              (Some staleSessionRequest) uploadedState))) = 200
   \<and> map s_id (prompt_sessions (snd (handleEdit (demoWorld ''r2'' 200 replyImage (Images_stored ''img-2''))
                                        (Some staleSessionRequest) uploadedState)))
       = [''r1-a'', ''r2-a'']"
  unfolding uploadedState_value
  by (simp add: staleVersionRequest_def staleSessionRequest_def followUpRequest_def demo_simps edit_simps
      Let_def startsWith_def insertVersion_def insertSession_def
      uploadToCloudflareImages_def deliveryUrl_def stripTrailingSlash_def stringifyHistory_def
      jsonResponse_def optField_def)

text \<open>The theorem at the edit that names the previous version \<open>missing\<close> and the session \<open>r1-a\<close>.\<close>

theorem session_resolution_falls_through_witness:
  "image_ids staleVersionRequest = Some [''img-1'']
   \<and> truthy (edit_prompt staleVersionRequest)
   \<and> sessionOfPrevious uploadedState staleVersionRequest = None
   \<and> map_option s_id (sessionOfId uploadedState staleVersionRequest) = Some ''r1-a''
   \<and> handleEdit (demoWorld ''r2'' 200 replyImage (Images_stored ''img-2'')) (Some staleVersionRequest) uploadedState
       = editWithSession (demoWorld ''r2'' 200 replyImage (Images_stored ''img-2'')) 0 staleVersionRequest
           ''render the patio view'' [''img-1''] None (hd (prompt_sessions uploadedState)) uploadedState
   \<and> status (respond (fst (handleEdit (demoWorld ''r2'' 200 replyImage (Images_stored ''img-2''))
                              (Some staleVersionRequest) uploadedState))) \<noteq> 404"
proof -
  let ?w = "demoWorld ''r2'' 200 replyImage (Images_stored ''img-2'')"
  have i: "image_ids staleVersionRequest = Some [''img-1'']"
    and t: "truthy (edit_prompt staleVersionRequest)"
    and ep: "the_default [] (edit_prompt staleVersionRequest) = ''render the patio view''"
    by (simp_all add: staleVersionRequest_def followUpRequest_def editRequest_def)
  have sp: "sessionOfPrevious uploadedState staleVersionRequest = None"
    unfolding uploadedState_value
    by (simp add: sessionOfPrevious_def staleVersionRequest_def followUpRequest_def editRequest_def)
  have si: "sessionOfId uploadedState staleVersionRequest = Some (hd (prompt_sessions uploadedState))"
    unfolding uploadedState_value
    by (simp add: sessionOfId_def staleVersionRequest_def followUpRequest_def editRequest_def)
  have pv: "None = (if truthy (previous_version_id staleVersionRequest)
                    then getVersionById uploadedState (the_default [] (previous_version_id staleVersionRequest))
                    else None)"
    unfolding uploadedState_value
    by (simp add: getVersionById_def staleVersionRequest_def followUpRequest_def editRequest_def)
  have hyp: "Some staleVersionRequest = Some staleVersionRequest
     \<and> image_ids staleVersionRequest = Some [''img-1''] \<and> [''img-1''] \<noteq> []
     \<and> truthy (edit_prompt staleVersionRequest)
     \<and> None = (if truthy (previous_version_id staleVersionRequest)
                    then getVersionById uploadedState (the_default [] (previous_version_id staleVersionRequest))
                    else None)"
    using i t pv by simp
  have e: "handleEdit ?w (Some staleVersionRequest) uploadedState
       = editWithSession ?w 0 staleVersionRequest
           ''render the patio view'' [''img-1''] None (hd (prompt_sessions uploadedState)) uploadedState"
    using session_resolution_falls_through[THEN conjunct1, THEN mp, OF hyp, of ?w]
    unfolding sp si ep by simp
  have n: "status (respond (fst (handleEdit ?w (Some staleVersionRequest) uploadedState))) \<noteq> 404"
    by (rule session_resolution_falls_through[THEN conjunct2])
  have m: "map_option s_id (sessionOfId uploadedState staleVersionRequest) = Some ''r1-a''"
    unfolding si unfolding uploadedState_value by simp
  show ?thesis using i t sp m e n by (intro conjI)
qed

section \<open>A stored history that does not parse\<close>




















section \<open>The latest render of an angle\<close>

text \<open>
  The first row of a sort that keeps rows of equal key in their order: no row has a lesser
  key, and every row before it in the list sorted has a greater one.
\<close>

lemma sort_key_first:
  fixes f :: "'a \<Rightarrow> int"
  assumes "sort_key f xs = x # rest"
  shows "x \<in> set xs" and "\<forall>y \<in> set xs. f x \<le> f y"
    and "\<exists>zs. filter (\<lambda>y. f y = f x) xs = x # zs"
proof -
  have e: "set xs = set (x # rest)" using set_sort[of f xs] assms by simp
  show "x \<in> set xs" unfolding e by simp
  have "sorted (map f (x # rest))" using sorted_sort_key[of f xs] assms by simp
  then have "\<forall>y \<in> set (x # rest). f x \<le> f y" by auto
  then show "\<forall>y \<in> set xs. f x \<le> f y" unfolding e .
  have "filter (\<lambda>y. f y = f x) xs = filter (\<lambda>y. f y = f x) (x # rest)"
    using sort_key_stable[of f "f x" xs] assms by simp
  then show "\<exists>zs. filter (\<lambda>y. f y = f x) xs = x # zs" by simp
qed

lemma renderAngleRow_None:
  "renderAngleRow st label = None
     \<longleftrightarrow> (\<forall>row \<in> set (image_versions st). getProp (v_metadata row) ''angle_id'' \<noteq> Some (JStr label))"
proof -
  have "renderAngleRow st label = None
          \<longleftrightarrow> sort_key (\<lambda>row. - int (v_created_at row)) (angleMatches st label) = []"
    by (simp add: renderAngleRow_def split: list.splits)
  also have "\<dots> \<longleftrightarrow> angleMatches st label = []"
    using length_sort[of "\<lambda>row. - int (v_created_at row)" "angleMatches st label"]
    by (metis length_0_conv)
  also have "\<dots> \<longleftrightarrow> (\<forall>row \<in> set (image_versions st).
                        getProp (v_metadata row) ''angle_id'' \<noteq> Some (JStr label))"
    by (simp add: angleMatches_def filter_empty_conv)
  finally show ?thesis .
qed

lemma renderAngleRow_Some:
  assumes "renderAngleRow st label = Some row"
  shows "\<exists>before after.
           image_versions st = before @ row # after
           \<and> getProp (v_metadata row) ''angle_id'' = Some (JStr label)
           \<and> (\<forall>r \<in> set before. getProp (v_metadata r) ''angle_id'' = Some (JStr label)
                 \<longrightarrow> v_created_at r < v_created_at row)
           \<and> (\<forall>r \<in> set after. getProp (v_metadata r) ''angle_id'' = Some (JStr label)
                 \<longrightarrow> v_created_at r \<le> v_created_at row)"
proof -
  let ?L = "\<lambda>r. getProp (v_metadata r) ''angle_id'' = Some (JStr label)"
  let ?f = "\<lambda>row. - int (v_created_at row)"
  from assms obtain rest where
    srt: "sort_key ?f (angleMatches st label) = row # rest"
    by (auto simp: renderAngleRow_def split: list.splits)
  note first = sort_key_first[OF srt]
  have lab: "?L row" using first(1) by (simp add: angleMatches_def)
  have latest: "\<forall>y \<in> set (image_versions st). ?L y \<longrightarrow> v_created_at y \<le> v_created_at row"
    using first(2) by (simp add: angleMatches_def)
  from first(3) obtain zs where
    "filter (\<lambda>y. ?L y \<and> ?f y = ?f row) (image_versions st) = row # zs"
    by (auto simp: angleMatches_def)
  then obtain before after where
    s: "image_versions st = before @ row # after"
       "\<forall>u \<in> set before. \<not> (?L u \<and> ?f u = ?f row)"
    unfolding filter_eq_Cons_iff by blast
  have "\<forall>r \<in> set before. ?L r \<longrightarrow> v_created_at r < v_created_at row"
  proof (intro ballI impI)
    fix r assume r: "r \<in> set before" "?L r"
    then have "v_created_at r \<le> v_created_at row" using latest s(1) by simp
    moreover have "v_created_at r \<noteq> v_created_at row" using s(2) r by auto
    ultimately show "v_created_at r < v_created_at row" by simp
  qed
  moreover have "\<forall>r \<in> set after. ?L r \<longrightarrow> v_created_at r \<le> v_created_at row"
    using latest s(1) by simp
  ultimately show ?thesis using s(1) lab by blast
qed

text \<open>
  Claim C4, as the code has it. Without a non-empty \<open>angle_id\<close> the answer is 400. With a
  label, the answer is 404 exactly when no version carries the label, whatever other
  versions there are; otherwise it is the 200 response for one version of the table: it
  carries the label, no version with the label is later, and every version with the label
  that was inserted before it is earlier. So among the latest versions of one second the
  answer is the one inserted first.
\<close>

theorem latest_render_of_angle:
  "(\<not> truthy angleId \<longrightarrow>
      handleRenderAngle angleId st = jsonResponse (errorBody ''angle_id is required'') 400)
   \<and> (label \<noteq> [] \<longrightarrow>
        (status (handleRenderAngle (Some label) st) = 404
           \<longleftrightarrow> (\<forall>row \<in> set (image_versions st). getProp (v_metadata row) ''angle_id'' \<noteq> Some (JStr label)))
        \<and> (status (handleRenderAngle (Some label) st) \<noteq> 404 \<longrightarrow>
             (\<exists>before row after.
                image_versions st = before @ row # after
                \<and> getProp (v_metadata row) ''angle_id'' = Some (JStr label)
                \<and> (\<forall>r \<in> set before. getProp (v_metadata r) ''angle_id'' = Some (JStr label)
                      \<longrightarrow> v_created_at r < v_created_at row)
                \<and> (\<forall>r \<in> set after. getProp (v_metadata r) ''angle_id'' = Some (JStr label)
                      \<longrightarrow> v_created_at r \<le> v_created_at row)
                \<and> handleRenderAngle (Some label) st = renderAngleResponse (Some row)
                \<and> status (handleRenderAngle (Some label) st) = 200)))"
proof (intro conjI impI)
  assume "\<not> truthy angleId"
  then show "handleRenderAngle angleId st = jsonResponse (errorBody ''angle_id is required'') 400"
    by (simp add: handleRenderAngle_def)
next
  assume l: "label \<noteq> []"
  then have h: "handleRenderAngle (Some label) st = renderAngleResponse (renderAngleRow st label)"
    by (simp add: handleRenderAngle_def)
  have "status (renderAngleResponse (renderAngleRow st label)) = 404 \<longleftrightarrow> renderAngleRow st label = None"
    by (simp add: renderAngleResponse_def split: option.splits)
  then show "status (handleRenderAngle (Some label) st) = 404
           \<longleftrightarrow> (\<forall>row \<in> set (image_versions st). getProp (v_metadata row) ''angle_id'' \<noteq> Some (JStr label))"
    unfolding h renderAngleRow_None .
next
  assume l: "label \<noteq> []"
  assume n: "status (handleRenderAngle (Some label) st) \<noteq> 404"
  from l have h: "handleRenderAngle (Some label) st = renderAngleResponse (renderAngleRow st label)"
    by (simp add: handleRenderAngle_def)
  from n h obtain row where r: "renderAngleRow st label = Some row"
    by (cases "renderAngleRow st label") (auto simp: renderAngleResponse_def)
  from renderAngleRow_Some[OF r] obtain before after where
    s: "image_versions st = before @ row # after"
       "getProp (v_metadata row) ''angle_id'' = Some (JStr label)"
       "\<forall>r \<in> set before. getProp (v_metadata r) ''angle_id'' = Some (JStr label)
                 \<longrightarrow> v_created_at r < v_created_at row"
       "\<forall>r \<in> set after. getProp (v_metadata r) ''angle_id'' = Some (JStr label)
                 \<longrightarrow> v_created_at r \<le> v_created_at row"
    by blast
  have "handleRenderAngle (Some label) st = renderAngleResponse (Some row)" using h r by simp
  moreover have "status (handleRenderAngle (Some label) st) = 200"
    using h r by (simp add: renderAngleResponse_def)
  ultimately show "\<exists>before row after.
                image_versions st = before @ row # after
                \<and> getProp (v_metadata row) ''angle_id'' = Some (JStr label)
                \<and> (\<forall>r \<in> set before. getProp (v_metadata r) ''angle_id'' = Some (JStr label)
                      \<longrightarrow> v_created_at r < v_created_at row)
                \<and> (\<forall>r \<in> set after. getProp (v_metadata r) ''angle_id'' = Some (JStr label)
                      \<longrightarrow> v_created_at r \<le> v_created_at row)
                \<and> handleRenderAngle (Some label) st = renderAngleResponse (Some row)
                \<and> status (handleRenderAngle (Some label) st) = 200"
    using s by blast
qed

text \<open>
  Claim C4 as stated has NotFound for every label that no version carries. No version
  carries the empty label, and the request for it is answered 400, not 404.
\<close>

theorem empty_label_is_rejected:
  "list_all (\<lambda>row. getProp (v_metadata row) ''angle_id'' \<noteq> Some (JStr [])) (image_versions editedState)
   \<and> handleRenderAngle (Some []) editedState = jsonResponse (errorBody ''angle_id is required'') 400
   \<and> status (handleRenderAngle (Some []) editedState) = 400"
proof -
  obtain r p where s: "image_versions editedState = [r, p]"
    "getProp (v_metadata r) ''angle_id'' = None"
    "v_id p = ''r2-a''" "v_created_at p = 200" "getProp (v_metadata p) ''angle_id'' = Some (JStr ''patio'')"
    by (rule editedState_split)
  show ?thesis using s by (simp add: handleRenderAngle_def)
qed

text \<open>
  The theorem after the upload and two renders of the patio stored in the same second:
  the answer for the patio is the response for \<open>r2-a\<close>, the render inserted first; the
  answer for the stairs is 404, and without a label it is 400.
\<close>

theorem latest_render_of_angle_witness:
  "handleRenderAngle (Some ''patio'') tiedState = renderAngleResponse (Some (image_versions tiedState ! 1))
   \<and> map (\<lambda>row. (v_id row, v_created_at row)) (angleMatches tiedState ''patio'')
       = [(''r2-a'', 200), (''r3-a'', 200)]
   \<and> v_id (image_versions tiedState ! 1) = ''r2-a''
   \<and> status (handleRenderAngle (Some ''patio'') tiedState) = 200
   \<and> status (handleRenderAngle (Some ''stairs'') tiedState) = 404
   \<and> handleRenderAngle None tiedState = jsonResponse (errorBody ''angle_id is required'') 400"
proof -
  obtain r p q where s: "image_versions tiedState = [r, p, q]"
    "getProp (v_metadata r) ''angle_id'' = None"
    "v_id p = ''r2-a''" "v_created_at p = 200" "getProp (v_metadata p) ''angle_id'' = Some (JStr ''patio'')"
    "v_id q = ''r3-a''" "v_created_at q = 200" "getProp (v_metadata q) ''angle_id'' = Some (JStr ''patio'')"
    by (rule tiedState_split)
  have m: "angleMatches tiedState ''patio'' = [p, q]" using s by (simp add: angleMatches_def)
  have ne: "''patio'' \<noteq> []" and ns: "''stairs'' \<noteq> []" by simp_all
  note patio = latest_render_of_angle[THEN conjunct2, THEN mp, OF ne, of tiedState]
  note stairs = latest_render_of_angle[THEN conjunct2, THEN mp, OF ns, of tiedState]
  have "\<not> (\<forall>row \<in> set (image_versions tiedState). getProp (v_metadata row) ''angle_id'' \<noteq> Some (JStr ''patio''))"
    using s by simp
  then have n: "status (handleRenderAngle (Some ''patio'') tiedState) \<noteq> 404"
    using patio[THEN conjunct1] by blast
  from patio[THEN conjunct2, THEN mp, OF n] obtain before row after where
    f: "image_versions tiedState = before @ row # after"
       "getProp (v_metadata row) ''angle_id'' = Some (JStr ''patio'')"
       "\<forall>r \<in> set before. getProp (v_metadata r) ''angle_id'' = Some (JStr ''patio'')
                      \<longrightarrow> v_created_at r < v_created_at row"
       "handleRenderAngle (Some ''patio'') tiedState = renderAngleResponse (Some row)"
       "status (handleRenderAngle (Some ''patio'') tiedState) = 200"
    by blast
  have "row = p"
    using f(1,2,3) s by (auto simp: Cons_eq_append_conv)
  then have a: "handleRenderAngle (Some ''patio'') tiedState = renderAngleResponse (Some p)"
    using f(4) by simp
  have "\<forall>row \<in> set (image_versions tiedState). getProp (v_metadata row) ''angle_id'' \<noteq> Some (JStr ''stairs'')"
    using s by simp
  then have b: "status (handleRenderAngle (Some ''stairs'') tiedState) = 404"
    using stairs[THEN conjunct1] by blast
  have nn: "\<not> truthy None" by simp
  note c = latest_render_of_angle[THEN conjunct1, THEN mp, OF nn, of tiedState]
  show ?thesis using a f(5) b c s m by simp
qed

section \<open>Lineage\<close>

subsection \<open>The levels of the recursion\<close>

lemma cteStep_Nil [simp]: "cteStep st [] = []"
  by (simp add: cteStep_def)

lemma cteStep_funpow_Nil [simp]: "(cteStep st ^^ d) [] = []"
  by (induction d) simp_all

lemma set_cteStep:
  "set (cteStep st level)
     = {row \<in> set (image_versions st). \<exists>h \<in> set level. v_parent_id row = Some (v_id h)}"
  by (auto simp: cteStep_def)

text \<open>The rows of depth \<open>d\<close> are the descendants at \<open>d\<close> steps.\<close>

lemma set_level:
  "set ((cteStep st ^^ d) (cteSeed st i)) = {row. descendant st i d row}"
proof (induction d)
  case 0
  show ?case by (auto simp: cteSeed_def intro: descendant.self elim: descendant.cases)
next
  case (Suc d)
  show ?case
  proof (rule set_eqI)
    fix row
    have "row \<in> set ((cteStep st ^^ Suc d) (cteSeed st i))
            \<longleftrightarrow> row \<in> set (image_versions st)
                \<and> (\<exists>h. descendant st i d h \<and> v_parent_id row = Some (v_id h))"
      using Suc.IH by (auto simp: set_cteStep)
    also have "\<dots> \<longleftrightarrow> descendant st i (Suc d) row"
      by (auto intro: descendant.child elim: descendant.cases)
    finally show "row \<in> set ((cteStep st ^^ Suc d) (cteSeed st i)) \<longleftrightarrow> row \<in> {row. descendant st i (Suc d) row}"
      by simp
  qed
qed

text \<open>
  When some level is empty the recursion ends: \<open>cteLevels\<close> returns the levels before the
  first empty one.
\<close>

lemma cteLevels_ends:
  "(cteStep st ^^ k) level = [] \<Longrightarrow>
     \<exists>levels. cteLevels st level = Some levels
        \<and> length levels \<le> k
        \<and> (\<forall>d < length levels. levels ! d = (cteStep st ^^ d) level \<and> levels ! d \<noteq> [])
        \<and> (cteStep st ^^ length levels) level = []"
proof (induction k arbitrary: level)
  case 0
  then have "level = []" by simp
  then have "cteLevels st level = Some []" by (subst cteLevels.simps) simp
  then show ?case using \<open>level = []\<close> by simp
next
  case (Suc k)
  show ?case
  proof (cases "level = []")
    case True
    then have "cteLevels st level = Some []" by (subst cteLevels.simps) simp
    then show ?thesis using True by simp
  next
    case False
    have "(cteStep st ^^ k) (cteStep st level) = []"
      using Suc.prems by (simp add: funpow_swap1)
    from Suc.IH[OF this] obtain deeper where
      d: "cteLevels st (cteStep st level) = Some deeper" "length deeper \<le> k"
         "\<forall>d < length deeper. deeper ! d = (cteStep st ^^ d) (cteStep st level) \<and> deeper ! d \<noteq> []"
         "(cteStep st ^^ length deeper) (cteStep st level) = []"
      by blast
    have c: "cteLevels st level = Some (level # deeper)"
      using False d(1) by (subst cteLevels.simps) simp
    have "\<forall>e < length (level # deeper).
            (level # deeper) ! e = (cteStep st ^^ e) level \<and> (level # deeper) ! e \<noteq> []"
    proof (intro allI impI)
      fix e assume e: "e < length (level # deeper)"
      show "(level # deeper) ! e = (cteStep st ^^ e) level \<and> (level # deeper) ! e \<noteq> []"
      proof (cases e)
        case 0
        then show ?thesis using False by simp
      next
        case (Suc e')
        then have "e' < length deeper" using e by simp
        with d(3) have "deeper ! e' = (cteStep st ^^ e') (cteStep st level) \<and> deeper ! e' \<noteq> []"
          by blast
        then have "(level # deeper) ! Suc e' = (cteStep st ^^ e') (cteStep st level)"
          and "(level # deeper) ! Suc e' \<noteq> []" by auto
        moreover have "(cteStep st ^^ Suc e') level = (cteStep st ^^ e') (cteStep st level)"
          by (simp add: funpow_swap1)
        ultimately show ?thesis unfolding Suc by metis
      qed
    qed
    moreover have "(cteStep st ^^ length (level # deeper)) level = []"
      using d(4) by (simp add: funpow_swap1)
    ultimately show ?thesis using c d(2) by auto
  qed
qed

subsection \<open>Tables in which parents come first\<close>

lemma parentsFirst_ids:
  "parentsFirst seen rows \<Longrightarrow> distinct (map v_id rows) \<and> set (map v_id rows) \<inter> set seen = {}"
proof (induction rows arbitrary: seen)
  case Nil
  then show ?case by simp
next
  case (Cons row rows)
  then have "parentsFirst (seen @ [v_id row]) rows" and n: "v_id row \<notin> set seen" by simp_all
  from Cons.IH[OF this(1)] show ?case using n by auto
qed

lemma parentsFirst_parent:
  "parentsFirst seen rows \<Longrightarrow> k < length rows \<Longrightarrow> v_parent_id (rows ! k) = Some p
     \<Longrightarrow> p \<in> set seen \<union> set (map v_id (take k rows))"
proof (induction rows arbitrary: seen k)
  case Nil
  then show ?case by simp
next
  case (Cons row rows)
  show ?case
  proof (cases k)
    case 0
    then show ?thesis using Cons.prems by simp
  next
    case (Suc k')
    have "parentsFirst (seen @ [v_id row]) rows" using Cons.prems(1) by simp
    from Cons.IH[OF this, of k' ] Cons.prems(2,3) Suc
    have "p \<in> set (seen @ [v_id row]) \<union> set (map v_id (take k' rows))" by simp
    then show ?thesis using Suc by auto
  qed
qed

lemma forest_distinct: "forest st \<Longrightarrow> distinct (map v_id (image_versions st))"
  using parentsFirst_ids[of "[]" "image_versions st"] by (simp add: forest_def)

lemma distinct_ids_nth:
  assumes "distinct (map v_id rows)" and "j < length rows" and "k < length rows"
    and "v_id (rows ! j) = v_id (rows ! k)"
  shows "j = k"
  using assms by (metis distinct_conv_nth length_map nth_map)

lemma distinct_ids_row:
  assumes "distinct (map v_id rows)" and "a \<in> set rows" and "b \<in> set rows" and "v_id a = v_id b"
  shows "a = b"
  using assms by (metis distinct_ids_nth in_set_conv_nth)

text \<open>In a forest a row's parent stands before it.\<close>

lemma forest_parent_before:
  assumes "forest st" and "k < length (image_versions st)"
    and "v_parent_id (image_versions st ! k) = Some (v_id h)" and "h \<in> set (image_versions st)"
  shows "\<exists>j < k. image_versions st ! j = h"
proof -
  have "v_id h \<in> set (map v_id (take k (image_versions st)))"
    using parentsFirst_parent[of "[]" "image_versions st" k "v_id h"] assms by (simp add: forest_def)
  then obtain r where r: "r \<in> set (take k (image_versions st))" "v_id r = v_id h" by auto
  then obtain j where j: "j < k" "j < length (image_versions st)" "image_versions st ! j = r"
    by (auto simp: in_set_conv_nth)
  have "r \<in> set (image_versions st)" using r(1) by (rule in_set_takeD)
  then have "r = h" using distinct_ids_row[OF forest_distinct[OF assms(1)] _ assms(4) r(2)] by simp
  then show ?thesis using j by auto
qed

text \<open>A descendant at \<open>d\<close> steps stands at least \<open>d\<close> rows after the queried version.\<close>

lemma descendant_position:
  assumes "forest st"
  shows "descendant st i d row \<Longrightarrow>
     row \<in> set (image_versions st)
     \<and> (\<forall>k < length (image_versions st). image_versions st ! k = row \<longrightarrow>
          (\<exists>k0. k0 + d \<le> k \<and> v_id (image_versions st ! k0) = i))"
proof (induction rule: descendant.induct)
  case (self row)
  then show ?case by auto
next
  case (child d h row)
  show ?case
  proof (intro conjI allI impI)
    show "row \<in> set (image_versions st)" by (rule child(2))
  next
    fix k assume k: "k < length (image_versions st)" "image_versions st ! k = row"
    have "v_parent_id (image_versions st ! k) = Some (v_id h)" using child(3) k(2) by simp
    moreover have "h \<in> set (image_versions st)" using child.IH by simp
    ultimately obtain j where j: "j < k" "image_versions st ! j = h"
      using forest_parent_before[OF assms k(1)] by blast
    then obtain k0 where "k0 + d \<le> j" "v_id (image_versions st ! k0) = i"
      using child.IH k(1) by (metis less_trans)
    then show "\<exists>k0. k0 + Suc d \<le> k \<and> v_id (image_versions st ! k0) = i"
      using j(1) by (intro exI[of _ k0]) simp
  qed
qed

lemma forest_level_empty:
  assumes "forest st"
  shows "(cteStep st ^^ length (image_versions st)) (cteSeed st i) = []"
proof (rule ccontr)
  assume "(cteStep st ^^ length (image_versions st)) (cteSeed st i) \<noteq> []"
  then obtain row where "row \<in> set ((cteStep st ^^ length (image_versions st)) (cteSeed st i))"
    by (cases "(cteStep st ^^ length (image_versions st)) (cteSeed st i)") auto
  then have d: "descendant st i (length (image_versions st)) row" using set_level by blast
  from descendant_position[OF assms d] obtain k where
    "k < length (image_versions st)" "image_versions st ! k = row"
    by (auto simp: in_set_conv_nth)
  then show False using descendant_position[OF assms d] by fastforce
qed

subsection \<open>The worker keeps the version table a forest\<close>

lemma parentsFirst_append:
  "parentsFirst seen rows \<Longrightarrow> v_id v \<notin> set seen \<union> set (map v_id rows)
     \<Longrightarrow> (case v_parent_id v of None \<Rightarrow> True | Some p \<Rightarrow> p \<in> set seen \<union> set (map v_id rows))
     \<Longrightarrow> parentsFirst seen (rows @ [v])"
proof (induction rows arbitrary: seen)
  case Nil
  then show ?case by (auto split: option.splits)
next
  case (Cons row rows)
  have "parentsFirst (seen @ [v_id row]) (rows @ [v])"
  proof (rule Cons.IH)
    show "parentsFirst (seen @ [v_id row]) rows" using Cons.prems(1) by simp
    show "v_id v \<notin> set (seen @ [v_id row]) \<union> set (map v_id rows)" using Cons.prems(2) by auto
    show "case v_parent_id v of None \<Rightarrow> True
          | Some p \<Rightarrow> p \<in> set (seen @ [v_id row]) \<union> set (map v_id rows)"
      using Cons.prems(3) by (auto split: option.splits)
  qed
  then show ?case using Cons.prems(1) by simp
qed

lemma forest_append:
  assumes "forest st" and "image_versions st' = image_versions st @ [v]"
    and "v_id v \<notin> set (map v_id (image_versions st))"
    and "case v_parent_id v of None \<Rightarrow> True | Some p \<Rightarrow> p \<in> set (map v_id (image_versions st))"
  shows "forest st'"
proof -
  have "parentsFirst [] (image_versions st @ [v])"
    by (rule parentsFirst_append) (use assms in \<open>auto simp: forest_def split: option.splits\<close>)
  then show ?thesis using assms(2) by (simp add: forest_def)
qed

lemma reachable_forest: "reachable st \<Longrightarrow> forest st"
proof (induction rule: reachable.induct)
  case (initial st)
  then show ?case by (simp add: forest_def)
next
  case (upload st w request out st')
  from upload(2) show ?case
  proof (cases rule: handleUpload_cases)
    case rejected
    then show ?thesis using upload.IH by simp
  next
    case (failed e)
    then show ?thesis using upload.IH by (simp add: forest_def)
  next
    case (stored fileBytes fileType imageId st1 st2)
    note se = insertSession_effect[OF stored(3)]
    note ue = uploadToCloudflareImages_effect[OF stored(4)]
    have "\<exists>v. insertVersion v st2 = Inr st' \<and> v_parent_id v = None"
      using stored(5) by (intro exI conjI) (assumption, simp add: uploadVersionRow_def)
    then obtain v where v: "insertVersion v st2 = Inr st'" "v_parent_id v = None" by blast
    note ie = insertVersion_effect[OF v(1)]
    have vs: "image_versions st' = image_versions st @ [v]" using se ue ie by simp
    have fresh: "v_id v \<notin> set (map v_id (image_versions st))" using se ue ie by simp
    show ?thesis using forest_append[OF upload.IH vs fresh] v(2) by simp
  qed
next
  case (edit st w body out st')
  show ?case
  proof (cases "succeeded out")
    case False
    then show ?thesis using handleEdit_failed[OF edit(2)] edit.IH by (simp add: forest_def)
  next
    case True
    from handleEdit_succeeded_tables[OF edit(2) True] obtain v where
      v: "image_versions st' = image_versions st @ [v]"
         "v_id v \<notin> set (map v_id (image_versions st))"
         "case v_parent_id v of None \<Rightarrow> True | Some p \<Rightarrow> p \<in> set (map v_id (image_versions st))"
      by blast
    show ?thesis by (rule forest_append[OF edit.IH v])
  qed
qed

subsection \<open>The rows of the statement in a forest\<close>

lemma descendant_in_table: "descendant st i d row \<Longrightarrow> row \<in> set (image_versions st)"
  by (erule descendant.cases) simp_all

lemma level_in_table: "set ((cteStep st ^^ d) (cteSeed st i)) \<subseteq> set (image_versions st)"
  unfolding set_level using descendant_in_table by blast

lemma set_tagged:
  "set (concat (map (\<lambda>(d, level). map (Pair d) level) (enumerate 0 levels)))
     = {(d, row). d < length levels \<and> row \<in> set (levels ! d)}"
proof -
  have "(d, row) \<in> set (concat (map (\<lambda>(d, level). map (Pair d) level) (enumerate 0 levels)))
          \<longleftrightarrow> d < length levels \<and> row \<in> set (levels ! d)" for d row
  proof
    assume "(d, row) \<in> set (concat (map (\<lambda>(d, level). map (Pair d) level) (enumerate 0 levels)))"
    then obtain p where "p \<in> set (enumerate 0 levels)" "(d, row) \<in> set (map (Pair (fst p)) (snd p))"
      by (auto simp: case_prod_beta)
    then show "d < length levels \<and> row \<in> set (levels ! d)" by (auto simp: in_set_enumerate_eq)
  next
    assume a: "d < length levels \<and> row \<in> set (levels ! d)"
    then have "(d, levels ! d) \<in> set (enumerate 0 levels)" by (simp add: in_set_enumerate_eq)
    moreover have "(d, row) \<in> set (map (Pair d) (levels ! d))" using a by simp
    ultimately show "(d, row) \<in> set (concat (map (\<lambda>(d, level). map (Pair d) level) (enumerate 0 levels)))"
      by (auto intro!: bexI[of _ "(d, levels ! d)"])
  qed
  note pairs = this
  show ?thesis
  proof (rule set_eqI)
    fix x :: "nat \<times> 'a"
    obtain d row where x: "x = (d, row)" by (cases x)
    show "x \<in> set (concat (map (\<lambda>(d, level). map (Pair d) level) (enumerate 0 levels)))
            \<longleftrightarrow> x \<in> {(d, row). d < length levels \<and> row \<in> set (levels ! d)}"
      unfolding x using pairs[of d row] by (simp only: mem_Collect_eq prod.case)
  qed
qed

lemma snd_tagged:
  "map snd (concat (map (\<lambda>(d, level). map (Pair d) level) (enumerate n levels))) = concat levels"
  by (induction levels arbitrary: n) (simp_all add: comp_def)

lemma levels_beyond:
  assumes "(cteStep st ^^ n) level = []" and "n \<le> d"
  shows "(cteStep st ^^ d) level = []"
proof -
  obtain m where "d = m + n" using assms(2) by (metis le_add_diff_inverse2)
  then show ?thesis using assms(1) by (simp add: funpow_add)
qed

lemma historyCte_forest:
  assumes "forest st"
  obtains levels where
    "historyCte st i = Some (concat (map (\<lambda>(d, level). map (Pair d) level) (enumerate 0 levels)))"
    "\<forall>d < length levels. levels ! d = (cteStep st ^^ d) (cteSeed st i) \<and> levels ! d \<noteq> []"
    "(cteStep st ^^ length levels) (cteSeed st i) = []"
proof -
  from cteLevels_ends[OF forest_level_empty[OF assms, of i]] obtain levels where
    l: "cteLevels st (cteSeed st i) = Some levels"
       "\<forall>d < length levels. levels ! d = (cteStep st ^^ d) (cteSeed st i) \<and> levels ! d \<noteq> []"
       "(cteStep st ^^ length levels) (cteSeed st i) = []"
    by blast
  have "historyCte st i = Some (concat (map (\<lambda>(d, level). map (Pair d) level) (enumerate 0 levels)))"
    by (simp only: historyCte_def l(1) option.map)
  then show ?thesis using l(2,3) that by blast
qed

lemma historyCte_set:
  assumes "forest st" and "historyCte st i = Some rows"
  shows "set rows = {(d, row). descendant st i d row}"
proof -
  obtain levels where
    l: "historyCte st i = Some (concat (map (\<lambda>(d, level). map (Pair d) level) (enumerate 0 levels)))"
       "\<forall>d < length levels. levels ! d = (cteStep st ^^ d) (cteSeed st i) \<and> levels ! d \<noteq> []"
       "(cteStep st ^^ length levels) (cteSeed st i) = []"
    by (rule historyCte_forest[OF assms(1)])
  have rows: "set rows = {(d, row). d < length levels \<and> row \<in> set (levels ! d)}"
    using l(1) assms(2) set_tagged[of levels] by simp
  show ?thesis
  proof (rule set_eqI)
    fix x :: "nat \<times> VersionRow"
    obtain d row where x: "x = (d, row)" by (cases x)
    show "x \<in> set rows \<longleftrightarrow> x \<in> {(d, row). descendant st i d row}"
    proof (cases "d < length levels")
      case True
      then have "set (levels ! d) = {row. descendant st i d row}" using l(2) set_level[where st=st and d=d and i=i] by simp
      then show ?thesis using rows x True by simp
    next
      case False
      then have "(cteStep st ^^ d) (cteSeed st i) = []" using levels_beyond[OF l(3)] by simp
      then have "{row. descendant st i d row} = {}" using set_level[where st=st and d=d and i=i] by simp
      then show ?thesis using rows x False by simp
    qed
  qed
qed

subsection \<open>Every version once\<close>

lemma no_self_descendant:
  assumes "forest st" and "descendant st i (Suc d) row"
  shows "v_id row \<noteq> i"
proof
  assume i: "v_id row = i"
  from descendant_position[OF assms] obtain k where
    k: "k < length (image_versions st)" "image_versions st ! k = row"
    by (auto simp: in_set_conv_nth)
  then obtain k0 where k0: "k0 + Suc d \<le> k" "v_id (image_versions st ! k0) = i"
    using descendant_position[OF assms] by blast
  have "k0 = k"
    by (rule distinct_ids_nth[OF forest_distinct[OF assms(1)]]) (use k k0 i in simp_all)
  then show False using k0(1) by simp
qed

lemma depth_unique:
  assumes "forest st"
  shows "descendant st i d row \<Longrightarrow> descendant st i e row \<Longrightarrow> d = e"
proof (induction arbitrary: e rule: descendant.induct)
  case (self row)
  show ?case
  proof (cases e)
    case 0
    then show ?thesis by simp
  next
    case (Suc e')
    then show ?thesis using no_self_descendant[OF assms, of i e' row] self by simp
  qed
next
  case (child d h row)
  from child.prems show ?case
  proof (cases rule: descendant.cases)
    case self
    then show ?thesis
      using no_self_descendant[OF assms descendant.child[OF child.hyps(1,2,3)]] by simp
  next
    case (child e' h')
    have "h = h'"
      by (rule distinct_ids_row[OF forest_distinct[OF assms]])
         (use child child.hyps descendant_in_table in auto)
    then show ?thesis using child child.IH by simp
  qed
qed

lemma cteStep_distinct:
  assumes "distinct (map v_id (image_versions st))"
  shows "distinct level \<Longrightarrow> set level \<subseteq> set (image_versions st) \<Longrightarrow> distinct (cteStep st level)"
proof (induction level)
  case Nil
  then show ?case by simp
next
  case (Cons h level)
  have rows: "distinct (image_versions st)" using assms by (rule distinct_map[THEN iffD1, THEN conjunct1])
  have step: "cteStep st (h # level)
      = filter (\<lambda>iv. v_parent_id iv = Some (v_id h)) (image_versions st) @ cteStep st level"
    by (simp add: cteStep_def)
  have "distinct (cteStep st level)" using Cons by simp
  moreover have "distinct (filter (\<lambda>iv. v_parent_id iv = Some (v_id h)) (image_versions st))"
    using rows by simp
  moreover have "set (filter (\<lambda>iv. v_parent_id iv = Some (v_id h)) (image_versions st))
                   \<inter> set (cteStep st level) = {}"
  proof (rule ccontr)
    assume "set (filter (\<lambda>iv. v_parent_id iv = Some (v_id h)) (image_versions st))
                   \<inter> set (cteStep st level) \<noteq> {}"
    then obtain x where x1: "x \<in> set (filter (\<lambda>iv. v_parent_id iv = Some (v_id h)) (image_versions st))"
      and x2: "x \<in> set (cteStep st level)" by auto
    from x2 obtain h' where x: "h' \<in> set level" "v_parent_id x = Some (v_id h')"
      unfolding set_cteStep by blast
    from x1 have "v_parent_id x = Some (v_id h)" by simp
    then have "v_id h = v_id h'" using x(2) by simp
    then have "h = h'"
      using distinct_ids_row[OF assms, of h h'] Cons.prems(2) x(1) by auto
    then show False using Cons.prems(1) x(1) by simp
  qed
  ultimately show ?case unfolding step by simp
qed

lemma level_distinct:
  assumes "forest st"
  shows "distinct ((cteStep st ^^ d) (cteSeed st i))"
proof (induction d)
  case 0
  have "distinct (image_versions st)"
    using forest_distinct[OF assms] by (rule distinct_map[THEN iffD1, THEN conjunct1])
  then show ?case by (simp add: cteSeed_def)
next
  case (Suc d)
  then show ?case
    using cteStep_distinct[OF forest_distinct[OF assms] _ level_in_table[where st=st and d=d and i=i]] by simp
qed

lemma historyCte_distinct:
  assumes "forest st" and "historyCte st i = Some rows"
  shows "distinct (map snd rows)"
proof -
  obtain levels where
    l: "historyCte st i = Some (concat (map (\<lambda>(d, level). map (Pair d) level) (enumerate 0 levels)))"
       "\<forall>d < length levels. levels ! d = (cteStep st ^^ d) (cteSeed st i) \<and> levels ! d \<noteq> []"
       "(cteStep st ^^ length levels) (cteSeed st i) = []"
    by (rule historyCte_forest[OF assms(1)])
  have rows: "map snd rows = concat levels" using l(1) assms(2) snd_tagged[of 0 levels] by simp
  have apart: "a = b" if "a < length levels" "b < length levels" "x \<in> set (levels ! a)" "x \<in> set (levels ! b)"
    for a b x
  proof -
    have "descendant st i a x" "descendant st i b x" using that l(2) set_level[where st=st and i=i] by auto
    then show ?thesis by (rule depth_unique[OF assms(1)])
  qed
  have "distinct (concat levels)"
  proof (rule distinct_concat)
    show "distinct levels"
      unfolding distinct_conv_nth
    proof (intro allI impI)
      fix a b assume ab: "a < length levels" "b < length levels" "a \<noteq> b"
      show "levels ! a \<noteq> levels ! b"
      proof
        assume e: "levels ! a = levels ! b"
        have "levels ! a \<noteq> []" using l(2) ab(1) by blast
        then obtain x where "x \<in> set (levels ! a)" by (cases "levels ! a") auto
        then show False using apart[OF ab(1,2)] e ab(3) by simp
      qed
    qed
  next
    fix ys assume "ys \<in> set levels"
    then obtain d where "d < length levels" "ys = levels ! d" by (auto simp: in_set_conv_nth)
    then show "distinct ys" using l(2) level_distinct[OF assms(1), of d i] by simp
  next
    fix ys zs assume yz: "ys \<in> set levels" "zs \<in> set levels" "ys \<noteq> zs"
    then obtain a b where ab: "a < length levels" "ys = levels ! a" "b < length levels" "zs = levels ! b"
      by (auto simp: in_set_conv_nth)
    show "set ys \<inter> set zs = {}"
    proof (rule ccontr)
      assume "set ys \<inter> set zs \<noteq> {}"
      then obtain x where "x \<in> set (levels ! a)" "x \<in> set (levels ! b)" using ab by auto
      then have "a = b" using apart[OF ab(1,3)] by simp
      then show False using yz(3) ab by simp
    qed
  qed
  then show ?thesis using rows by simp
qed

subsection \<open>The join and the sort\<close>

lemma filter_is:
  "distinct xs \<Longrightarrow> filter (\<lambda>p. p = x) xs = (if x \<in> set xs then [x] else [])"
  by (induction xs) auto

text \<open>
  In a forest a row of the table joins the row of \<open>history\<close> that holds it, if there is one:
  the rows of one depth in the join are the rows of the table at that depth, in the order
  of the table.
\<close>

lemma join_one:
  assumes "distinct (map v_id (image_versions st))" and "distinct (map snd cte)"
    and "snd ` set cte \<subseteq> set (image_versions st)" and "iv \<in> set (image_versions st)"
  shows "map snd (filter (\<lambda>p. fst p = d)
                    (map (\<lambda>(d, h). (d, iv)) (filter (\<lambda>(d, h). v_id iv = v_id h) cte)))
         = (if (d, iv) \<in> set cte then [iv] else [])"
proof -
  have a: "filter (\<lambda>(d, h). v_id iv = v_id h) cte = filter (\<lambda>p. snd p = iv) cte"
  proof (rule filter_cong[OF refl])
    fix p assume "p \<in> set cte"
    then have "snd p \<in> set (image_versions st)" using assms(3) by auto
    then have "v_id iv = v_id (snd p) \<longleftrightarrow> snd p = iv"
      using distinct_ids_row[OF assms(1) assms(4), of "snd p"] by auto
    then show "(case p of (d, h) \<Rightarrow> v_id iv = v_id h) = (snd p = iv)" by (simp add: case_prod_beta)
  qed
  have b: "map (\<lambda>(d, h). (d, iv)) (filter (\<lambda>p. snd p = iv) cte) = filter (\<lambda>p. snd p = iv) cte"
    by (rule map_idI) auto
  have c: "filter (\<lambda>p. fst p = d) (filter (\<lambda>p. snd p = iv) cte) = filter (\<lambda>p. p = (d, iv)) cte"
    unfolding filter_filter by (rule filter_cong[OF refl]) auto
  have "distinct cte" using assms(2) by (rule distinct_map[THEN iffD1, THEN conjunct1])
  then show ?thesis unfolding a b c by (simp add: filter_is)
qed

lemma join_depth:
  assumes "distinct (map v_id (image_versions st))" and "distinct (map snd cte)"
    and "snd ` set cte \<subseteq> set (image_versions st)"
  shows "map snd (filter (\<lambda>p. fst p = d) (historyJoin st cte))
         = filter (\<lambda>r. (d, r) \<in> set cte) (image_versions st)"
proof -
  have "set rows \<subseteq> set (image_versions st) \<Longrightarrow>
          map snd (filter (\<lambda>p. fst p = d)
                     (concat (map (\<lambda>iv. map (\<lambda>(d, h). (d, iv)) (filter (\<lambda>(d, h). v_id iv = v_id h) cte)) rows)))
          = filter (\<lambda>r. (d, r) \<in> set cte) rows" for rows
  proof (induction rows)
    case Nil
    show ?case by simp
  next
    case (Cons iv rows)
    then have m: "iv \<in> set (image_versions st)" and r: "set rows \<subseteq> set (image_versions st)" by simp_all
    show ?case using join_one[OF assms m, of d] Cons.IH[OF r] by simp
  qed
  then show ?thesis unfolding historyJoin_def by simp
qed

text \<open>A list is distinct, or in an order, when its elements of each key are.\<close>

lemma distinct_by_key:
  assumes "\<And>k. distinct (filter (\<lambda>y. f y = k) xs)"
  shows "distinct xs"
  using assms
proof (induction xs)
  case Nil
  show ?case by simp
next
  case (Cons x xs)
  have "distinct (filter (\<lambda>y. f y = f x) (x # xs))" by (rule Cons.prems)
  then have "x \<notin> set xs" by simp
  moreover have "distinct (filter (\<lambda>y. f y = k) xs)" for k
    using Cons.prems[of k] by (simp split: if_splits)
  ultimately show ?case using Cons.IH by simp
qed

lemma ordered_by_key:
  fixes f :: "'a \<Rightarrow> nat"
  assumes "sorted (map f xs)" and "\<And>k. sorted_wrt S (filter (\<lambda>y. f y = k) xs)"
  shows "sorted_wrt (\<lambda>x y. f x < f y \<or> (f x = f y \<and> S x y)) xs"
  using assms
proof (induction xs)
  case Nil
  show ?case by simp
next
  case (Cons x xs)
  have s: "sorted (map f xs)" and le: "\<forall>y \<in> set xs. f x \<le> f y" using Cons.prems(1) by simp_all
  have k: "sorted_wrt S (filter (\<lambda>y. f y = k) xs)" for k
    using Cons.prems(2)[of k] by (simp split: if_splits)
  have "sorted_wrt S (x # filter (\<lambda>y. f y = f x) xs)" using Cons.prems(2)[of "f x"] by simp
  then have same: "\<forall>y \<in> set xs. f y = f x \<longrightarrow> S x y" by simp
  have "\<forall>y \<in> set xs. f x < f y \<or> (f x = f y \<and> S x y)"
  proof
    fix y assume y: "y \<in> set xs"
    show "f x < f y \<or> (f x = f y \<and> S x y)"
    proof (cases "f x = f y")
      case True
      then show ?thesis using same y by simp
    next
      case False
      then show ?thesis using le y by (simp add: le_neq_implies_less)
    qed
  qed
  then show ?case using Cons.IH[OF s k] by simp
qed

lemma mem_by_key: "(d, r) \<in> set xs \<longleftrightarrow> r \<in> set (map snd (filter (\<lambda>p. fst p = d) xs))"
  by force

subsection \<open>The answer of the lineage query\<close>

lemma childless_descendant:
  assumes "\<forall>c \<in> set (image_versions st). v_parent_id c \<noteq> Some i"
  shows "descendant st i d r \<Longrightarrow> d = 0"
proof (induction rule: descendant.induct)
  case (self row)
  show ?case by simp
next
  case (child d h row)
  then have "descendant st i 0 h" by simp
  then have "v_id h = i" by (auto elim: descendant.cases)
  then show ?case using child(2,3) assms by auto
qed

lemma sorted_first_least:
  assumes "sorted (map fst (x # rest))" and "y \<in> set (x # rest)"
  shows "fst x \<le> (fst y :: nat)"
  using assms by auto

lemma single_answer:
  assumes "distinct xs" and "set xs = {x}"
  shows "xs = [x]"
proof (cases xs)
  case Nil
  then show ?thesis using assms(2) by simp
next
  case (Cons y ys)
  have y: "y = x" using assms(2) Cons by auto
  have "set ys \<subseteq> {x}" using assms(2) Cons by auto
  moreover have "x \<notin> set ys" using assms(1) Cons y by simp
  ultimately have "ys = []" by (cases ys) auto
  then show ?thesis using Cons y by simp
qed

text \<open>
  Claim C3. In every state the worker can reach, for the id of a version of the table the
  lineage query ends, and its answer starts with the queried version at depth 0, holds
  exactly the versions below it, each once and with the number of steps that lead to it,
  and has its depths in increasing order; the versions of one depth stand in the order in
  which they were inserted into the table, which is the order of their \<open>created_at\<close> when
  the clock of the database was never set back; for a version that no version names as
  its parent the answer is the version alone.
\<close>

theorem lineage_by_depth:
  assumes "reachable st" and "row \<in> set (image_versions st)" and "v_id row = i"
  shows "\<exists>answer.
           historyRows st i = Some answer
         \<and> handleHistory st i
             = Some (jsonResponse (JObj [(''versions'', JArr (map (versionJson \<circ> snd) answer))]) 200)
         \<and> answer \<noteq> [] \<and> hd answer = (0, row)
         \<and> set answer = {(d, r). descendant st i d r}
         \<and> distinct (map snd answer)
         \<and> sorted (map fst answer)
         \<and> (\<forall>d. map snd (filter (\<lambda>p. fst p = d) answer)
                  = filter (\<lambda>r. descendant st i d r) (image_versions st))
         \<and> (sorted (map v_created_at (image_versions st)) \<longrightarrow> lineageOrder answer)
         \<and> ((\<forall>c \<in> set (image_versions st). v_parent_id c \<noteq> Some i) \<longrightarrow> answer = [(0, row)])"
proof -
  have f: "forest st" by (rule reachable_forest[OF assms(1)])
  note ids = forest_distinct[OF f]
  have table: "distinct (image_versions st)" using ids by (rule distinct_map[THEN iffD1, THEN conjunct1])
  obtain levels where
    "historyCte st i = Some (concat (map (\<lambda>(d, level). map (Pair d) level) (enumerate 0 levels)))"
    by (rule historyCte_forest[OF f])
  then obtain cte where cte: "historyCte st i = Some cte" by blast
  note cs = historyCte_set[OF f cte]
  note cd = historyCte_distinct[OF f cte]
  have ct: "snd ` set cte \<subseteq> set (image_versions st)" unfolding cs using descendant_in_table by auto
  define answer where "answer = sort_key fst (historyJoin st cte)"
  have rows: "historyRows st i = Some answer" by (simp add: historyRows_def cte answer_def)
  have resp: "handleHistory st i
             = Some (jsonResponse (JObj [(''versions'', JArr (map (versionJson \<circ> snd) answer))]) 200)"
    by (simp add: handleHistory_def rows)
  have depth: "map snd (filter (\<lambda>p. fst p = d) answer)
                  = filter (\<lambda>r. descendant st i d r) (image_versions st)" for d
  proof -
    have "filter (\<lambda>p. fst p = d) answer = filter (\<lambda>p. fst p = d) (historyJoin st cte)"
      unfolding answer_def by (rule sort_key_stable)
    then have "map snd (filter (\<lambda>p. fst p = d) answer) = filter (\<lambda>r. (d, r) \<in> set cte) (image_versions st)"
      using join_depth[OF ids cd ct, of d] by simp
    then show ?thesis unfolding cs by simp
  qed
  have srt: "sorted (map fst answer)" unfolding answer_def by (rule sorted_sort_key)
  have set: "set answer = {(d, r). descendant st i d r}"
  proof (rule set_eqI)
    fix x :: "nat \<times> VersionRow"
    obtain d r where x: "x = (d, r)" by (cases x)
    have "x \<in> set answer \<longleftrightarrow> r \<in> set (filter (\<lambda>r. descendant st i d r) (image_versions st))"
      unfolding x mem_by_key[of d r answer] depth ..
    also have "\<dots> \<longleftrightarrow> descendant st i d r" using descendant_in_table by auto
    finally show "x \<in> set answer \<longleftrightarrow> x \<in> {(d, r). descendant st i d r}" using x by simp
  qed
  have "distinct (filter (\<lambda>p. fst p = d) answer)" for d
  proof -
    have "distinct (map snd (filter (\<lambda>p. fst p = d) answer))" unfolding depth using table by simp
    then show ?thesis by (rule distinct_map[THEN iffD1, THEN conjunct1])
  qed
  then have da: "distinct answer" by (rule distinct_by_key)
  have "inj_on snd (set answer)"
  proof (rule inj_onI)
    fix x y assume x: "x \<in> set answer" and y: "y \<in> set answer" and e: "snd x = snd y"
    have "descendant st i (fst x) (snd x)" "descendant st i (fst y) (snd x)"
      using x y e set by (auto simp: case_prod_beta)
    then have "fst x = fst y" by (rule depth_unique[OF f])
    then show "x = y" using e by (simp add: prod_eq_iff)
  qed
  then have dist: "distinct (map snd answer)" using da by (simp add: distinct_map)
  have mem: "(0, row) \<in> set answer" using set descendant.self[OF assms(2,3)] by simp
  then have ne: "answer \<noteq> []" by auto
  then obtain d r rest where ans: "answer = (d, r) # rest" by (cases answer) auto
  have "fst (d, r) \<le> fst (0 :: nat, row)"
    by (rule sorted_first_least[of _ rest]) (use srt mem ans in simp_all)
  then have "d = 0" by simp
  then have "descendant st i 0 r" using set ans by auto
  then have "r \<in> set (image_versions st)" "v_id r = i" by (auto elim: descendant.cases)
  then have "r = row" using distinct_ids_row[OF ids _ assms(2)] assms(3) by simp
  then have hd: "hd answer = (0, row)" using ans \<open>d = 0\<close> by simp
  have clock: "lineageOrder answer" if t: "sorted (map v_created_at (image_versions st))"
  proof -
    have "sorted_wrt (\<lambda>p q. v_created_at (snd p) \<le> v_created_at (snd q)) (filter (\<lambda>p. fst p = k) answer)" for k
    proof -
      have "sorted (map v_created_at (filter (\<lambda>r. descendant st i k r) (image_versions st)))"
        using t by (rule sorted_filter)
      then have "sorted (map (\<lambda>p. v_created_at (snd p)) (filter (\<lambda>p. fst p = k) answer))"
        unfolding depth[of k, symmetric] by (simp add: comp_def)
      then show ?thesis by (simp add: sorted_map)
    qed
    from ordered_by_key[OF srt this]
    have o: "sorted_wrt (\<lambda>x y. fst x < fst y
               \<or> (fst x = fst y \<and> v_created_at (snd x) \<le> v_created_at (snd y))) answer" .
    show ?thesis unfolding lineageOrder_def by (rule sorted_wrt_mono_rel[OF _ o]) auto
  qed
  have only: "answer = [(0, row)]" if c: "\<forall>c \<in> set (image_versions st). v_parent_id c \<noteq> Some i"
  proof (rule single_answer)
    show "distinct answer" by (rule da)
    show "set answer = {(0, row)}"
    proof (rule set_eqI)
      fix x :: "nat \<times> VersionRow"
      obtain e q where x: "x = (e, q)" by (cases x)
      show "x \<in> set answer \<longleftrightarrow> x \<in> {(0, row)}"
      proof
        assume "x \<in> set answer"
        then have d: "descendant st i e q" using set x by simp
        then have "e = 0" by (rule childless_descendant[OF c])
        then have "q \<in> set (image_versions st)" "v_id q = i" using d by (auto elim: descendant.cases)
        then have "q = row" using distinct_ids_row[OF ids _ assms(2)] assms(3) by simp
        then show "x \<in> {(0, row)}" using x \<open>e = 0\<close> by simp
      next
        assume "x \<in> {(0, row)}"
        then show "x \<in> set answer" using mem by simp
      qed
    qed
  qed
  show ?thesis
    apply (rule exI[of _ answer])
    apply (intro conjI allI impI)
    using rows resp ne hd set dist srt depth clock only apply simp_all
    done
qed

lemma cousinsState_history:
  obtains a b c d e where "image_versions cousinsState = [a, b, c, d, e]"
    "map (\<lambda>row. (v_id row, v_parent_id row, v_created_at row)) [a, b, c, d, e]
       = [(''r1-b'', None, 100), (''r2-a'', Some ''r1-b'', 200), (''r3-a'', Some ''r1-b'', 300),
          (''r4-a'', Some ''r3-a'', 400), (''r5-a'', Some ''r2-a'', 500)]"
    "historyCte cousinsState ''r1-b'' = Some [(0, a), (1, b), (1, c), (2, e), (2, d)]"
    "historyRows cousinsState ''r1-b'' = Some [(0, a), (1, b), (1, c), (2, d), (2, e)]"
proof -
  obtain a b c d e where s: "image_versions cousinsState = [a, b, c, d, e]"
    "v_id a = ''r1-b''" "v_parent_id a = None" "v_created_at a = 100"
    "v_id b = ''r2-a''" "v_parent_id b = Some ''r1-b''" "v_created_at b = 200"
    "v_id c = ''r3-a''" "v_parent_id c = Some ''r1-b''" "v_created_at c = 300"
    "v_id d = ''r4-a''" "v_parent_id d = Some ''r3-a''" "v_created_at d = 400"
    "v_id e = ''r5-a''" "v_parent_id e = Some ''r2-a''" "v_created_at e = 500"
    by (rule cousinsState_split)
  have seed: "cteSeed cousinsState ''r1-b'' = [a]" using s by (simp add: cteSeed_def)
  have s1: "cteStep cousinsState [a] = [b, c]" using s by (simp add: cteStep_def)
  have s2: "cteStep cousinsState [b, c] = [e, d]" using s by (simp add: cteStep_def)
  have s3: "cteStep cousinsState [e, d] = []" using s by (simp add: cteStep_def)
  have l3: "cteLevels cousinsState [] = Some []" by (subst cteLevels.simps) simp
  have l2: "cteLevels cousinsState [e, d] = Some [[e, d]]" by (subst cteLevels.simps) (simp add: s3 l3)
  have l1: "cteLevels cousinsState [b, c] = Some [[b, c], [e, d]]"
    by (subst cteLevels.simps) (simp add: s2 l2)
  have l0: "cteLevels cousinsState [a] = Some [[a], [b, c], [e, d]]"
    by (subst cteLevels.simps) (simp add: s1 l1)
  have cte: "historyCte cousinsState ''r1-b'' = Some [(0, a), (1, b), (1, c), (2, e), (2, d)]"
    unfolding historyCte_def seed l0 by (simp add: enumerate_simps numeral_2_eq_2)
  have join: "historyJoin cousinsState [(0, a), (1, b), (1, c), (2, e), (2, d)]
                = [(0, a), (1, b), (1, c), (2, d), (2, e)]"
    unfolding historyJoin_def using s by simp
  have rows: "historyRows cousinsState ''r1-b'' = Some [(0, a), (1, b), (1, c), (2, d), (2, e)]"
    unfolding historyRows_def cte option.map join by simp
  show ?thesis by (rule that[OF s(1) _ cte rows]) (simp add: s)
qed

text \<open>
  The theorem in the thread of five versions, where \<open>r4-a\<close> (below \<open>r3-a\<close>) was inserted before
  \<open>r5-a\<close> (below \<open>r2-a\<close>): the recursion reaches \<open>r5-a\<close> first, and the lineage of \<open>r1-b\<close> has
  \<open>r4-a\<close> before \<open>r5-a\<close>; the lineage of \<open>r5-a\<close>, which has no child, is \<open>r5-a\<close> alone.
\<close>

theorem lineage_by_depth_witness:
  "(\<exists>answer. historyRows cousinsState ''r1-b'' = Some answer
       \<and> map (\<lambda>(d, row). (d, v_id row, v_created_at row)) answer
           = [(0, ''r1-b'', 100), (1, ''r2-a'', 200), (1, ''r3-a'', 300), (2, ''r4-a'', 400), (2, ''r5-a'', 500)]
       \<and> hd answer = (0, image_versions cousinsState ! 0)
       \<and> lineageOrder answer)
   \<and> map (\<lambda>(d, row). (d, v_id row)) (case historyCte cousinsState ''r1-b'' of None \<Rightarrow> [] | Some cte \<Rightarrow> cte)
       = [(0, ''r1-b''), (1, ''r2-a''), (1, ''r3-a''), (2, ''r5-a''), (2, ''r4-a'')]
   \<and> historyRows cousinsState ''r5-a'' = Some [(0, image_versions cousinsState ! 4)]"
proof -
  obtain a b c d e where s: "image_versions cousinsState = [a, b, c, d, e]"
    "map (\<lambda>row. (v_id row, v_parent_id row, v_created_at row)) [a, b, c, d, e]
       = [(''r1-b'', None, 100), (''r2-a'', Some ''r1-b'', 200), (''r3-a'', Some ''r1-b'', 300),
          (''r4-a'', Some ''r3-a'', 400), (''r5-a'', Some ''r2-a'', 500)]"
    "historyCte cousinsState ''r1-b'' = Some [(0, a), (1, b), (1, c), (2, e), (2, d)]"
    "historyRows cousinsState ''r1-b'' = Some [(0, a), (1, b), (1, c), (2, d), (2, e)]"
    by (rule cousinsState_history)
  have am: "a \<in> set (image_versions cousinsState)" and em: "e \<in> set (image_versions cousinsState)"
    using s(1) by simp_all
  have ai: "v_id a = ''r1-b''" and ei: "v_id e = ''r5-a''" using s(2) by simp_all
  from lineage_by_depth[OF reachable_cousinsState am ai] obtain answer where
    r: "historyRows cousinsState ''r1-b'' = Some answer" "hd answer = (0, a)"
       "sorted (map v_created_at (image_versions cousinsState)) \<longrightarrow> lineageOrder answer"
    by blast
  have "sorted (map v_created_at (image_versions cousinsState))" using s(1,2) by simp
  then have o: "lineageOrder answer" using r(3) by simp
  have v: "answer = [(0, a), (1, b), (1, c), (2, d), (2, e)]" using r(1) s(4) by simp
  have ids: "map (\<lambda>(d, row). (d, v_id row, v_created_at row)) answer
           = [(0, ''r1-b'', 100), (1, ''r2-a'', 200), (1, ''r3-a'', 300), (2, ''r4-a'', 400), (2, ''r5-a'', 500)]"
    unfolding v using s(2) by simp
  have root: "\<exists>answer. historyRows cousinsState ''r1-b'' = Some answer
       \<and> map (\<lambda>(d, row). (d, v_id row, v_created_at row)) answer
           = [(0, ''r1-b'', 100), (1, ''r2-a'', 200), (1, ''r3-a'', 300), (2, ''r4-a'', 400), (2, ''r5-a'', 500)]
       \<and> hd answer = (0, image_versions cousinsState ! 0)
       \<and> lineageOrder answer"
    using r(1,2) ids o s(1) by auto
  have cte: "map (\<lambda>(d, row). (d, v_id row)) (case historyCte cousinsState ''r1-b'' of None \<Rightarrow> [] | Some cte \<Rightarrow> cte)
       = [(0, ''r1-b''), (1, ''r2-a''), (1, ''r3-a''), (2, ''r5-a''), (2, ''r4-a'')]"
    unfolding s(3) using s(2) by simp
  from lineage_by_depth[OF reachable_cousinsState em ei] obtain leaf where
    l: "historyRows cousinsState ''r5-a'' = Some leaf"
       "(\<forall>c \<in> set (image_versions cousinsState). v_parent_id c \<noteq> Some ''r5-a'') \<longrightarrow> leaf = [(0, e)]"
    by blast
  have "\<forall>c \<in> set (image_versions cousinsState). v_parent_id c \<noteq> Some ''r5-a''" using s(1,2) by simp
  then have "leaf = [(0, e)]" using l(2) by simp
  then have leaf: "historyRows cousinsState ''r5-a'' = Some [(0, image_versions cousinsState ! 4)]"
    using l(1) s(1) by simp
  show ?thesis using root cte leaf by (intro conjI)
qed

end
